(* ===== verification/Prelude.thy ===== *)
theory Prelude
  imports Main "HOL-Library.Sublist" "HOL-Library.List_Lexorder" "HOL-Library.Char_ord"
begin

text \<open>
  Shared by every component: the exceptions of the Python code, the type of an effectful
  computation with its sequencing operators, the judgement \<open>keeps\<close> (a computation preserves a
  predicate of its environment and state) with one rule per operator, and the generic lemmas
  on sorted lists the components share.

  A computation takes an environment (what lies outside the program), a state and gives
  \<open>Some (r, s')\<close>, where \<open>r\<close> is \<open>Inl e\<close> when it raised \<open>e\<close> and \<open>Inr x\<close> when it returned \<open>x\<close>.
  \<open>None\<close> is a computation that never returns; only the unbounded loops of the source
  produce it.
\<close>

named_theorems comp_simps \<open>one computation step: the operators applied to an environment and a state\<close>
named_theorems yields_rules \<open>what is returned: one rule per operator\<close>
named_theorems returns_rules \<open>the computation ends: one rule per operator and per operation\<close>
named_theorems completes_rules \<open>the computation ends with a value: one rule per operator and per operation\<close>
named_theorems keeps_rules \<open>a predicate is kept: one rule per operator and per operation\<close>

section \<open>Exceptions\<close>

text \<open>
  What \<open>communicate()\<close> hands back: a \<open>str\<close> or a \<open>bytes\<close>. Its contents are the same
  characters; the difference is which operations raise \<open>TypeError\<close>.
\<close>

datatype pydata = Str string | Bytes string

text \<open>
  \<open>InstallerException\<close> and \<open>CmdErr\<close> are the program's own classes; \<open>CmdErr\<close> carries the four
  fields its constructor stores. The others are the Python exceptions the modelled lines
  can raise.
\<close>

datatype exn =
    InstallerException
  | CmdErr string int pydata pydata
  | TypeError
  | ValueError
  | IndexError
  | KeyError
  | OverflowError
  | ZeroDivisionError
  | RecursionError
  | UnboundLocalError
  | OSError
  | EOFError
  | KeyboardInterrupt
  | SystemExit int
  | GdbError string
  | GdbEvalError
  | OtherException string

section \<open>Computations\<close>

type_synonym ('e, 's, 'a) comp = "'e \<Rightarrow> 's \<Rightarrow> ((exn + 'a) \<times> 's) option"

definition ret :: "'a \<Rightarrow> ('e, 's, 'a) comp" where
  "ret x = (\<lambda>E s. Some (Inr x, s))"

definition raise :: "exn \<Rightarrow> ('e, 's, 'a) comp" where
  "raise e = (\<lambda>E s. Some (Inl e, s))"

definition bnd :: "('e, 's, 'a) comp \<Rightarrow> ('a \<Rightarrow> ('e, 's, 'b) comp) \<Rightarrow> ('e, 's, 'b) comp" where
  "bnd m f = (\<lambda>E s. case m E s of
       None \<Rightarrow> None
     | Some (Inl e, s') \<Rightarrow> Some (Inl e, s')
     | Some (Inr x, s') \<Rightarrow> f x E s')"

definition andthen :: "('e, 's, 'a) comp \<Rightarrow> ('e, 's, 'b) comp \<Rightarrow> ('e, 's, 'b) comp" where
  "andthen m k = bnd m (\<lambda>_. k)"

text \<open>\<open>try: m except: h\<close>; the handler sees the exception and may raise it again.\<close>

definition catch :: "('e, 's, 'a) comp \<Rightarrow> (exn \<Rightarrow> ('e, 's, 'a) comp) \<Rightarrow> ('e, 's, 'a) comp" where
  "catch m h = (\<lambda>E s. case m E s of
       None \<Rightarrow> None
     | Some (Inl e, s') \<Rightarrow> h e E s'
     | Some (Inr x, s') \<Rightarrow> Some (Inr x, s'))"

text \<open>\<open>try: m finally: f\<close>; an exception of the cleanup replaces that of the body.\<close>

definition ensure :: "('e, 's, 'a) comp \<Rightarrow> ('e, 's, unit) comp \<Rightarrow> ('e, 's, 'a) comp" where
  "ensure m f = (\<lambda>E s. case m E s of
       None \<Rightarrow> None
     | Some (r, s') \<Rightarrow> (case f E s' of
           None \<Rightarrow> None
         | Some (Inl e, s'') \<Rightarrow> Some (Inl e, s'')
         | Some (Inr _, s'') \<Rightarrow> Some (r, s'')))"

text \<open>A pure step that may raise, such as an index or a conversion.\<close>

definition lift_res :: "exn + 'a \<Rightarrow> ('e, 's, 'a) comp" where
  "lift_res r = (\<lambda>E s. Some (r, s))"

definition ask :: "('e \<Rightarrow> 'a) \<Rightarrow> ('e, 's, 'a) comp" where
  "ask f = (\<lambda>E s. Some (Inr (f E), s))"

definition get_st :: "('s \<Rightarrow> 'a) \<Rightarrow> ('e, 's, 'a) comp" where
  "get_st f = (\<lambda>E s. Some (Inr (f s), s))"

definition modify_st :: "('s \<Rightarrow> 's) \<Rightarrow> ('e, 's, unit) comp" where
  "modify_st f = (\<lambda>E s. Some (Inr (), f s))"

definition skip :: "('e, 's, unit) comp" where
  "skip = ret ()"

definition whenc :: "bool \<Rightarrow> ('e, 's, unit) comp \<Rightarrow> ('e, 's, unit) comp" where
  "whenc b m = (if b then m else skip)"

text \<open>A \<open>for\<close> loop without \<open>break\<close>, and a block of statements.\<close>

primrec for_each :: "'a list \<Rightarrow> ('a \<Rightarrow> ('e, 's, unit) comp) \<Rightarrow> ('e, 's, unit) comp" where
  "for_each [] f = skip"
| "for_each (x # xs) f = andthen (f x) (for_each xs f)"

primrec block :: "('e, 's, unit) comp list \<Rightarrow> ('e, 's, unit) comp" where
  "block [] = skip"
| "block (m # ms) = andthen m (block ms)"

text \<open>A \<open>for\<close> loop that computes a value, the loop's variables as the accumulator.\<close>

primrec fold_comp :: "('a \<Rightarrow> 'b \<Rightarrow> ('e, 's, 'b) comp) \<Rightarrow> 'a list \<Rightarrow> 'b \<Rightarrow> ('e, 's, 'b) comp" where
  "fold_comp f [] b = ret b"
| "fold_comp f (x # xs) b = bnd (f x b) (fold_comp f xs)"

lemma ret_app [comp_simps]: "ret x E s = Some (Inr x, s)"
  by (simp add: ret_def)

lemma raise_app [comp_simps]: "raise e E s = Some (Inl e, s)"
  by (simp add: raise_def)

lemma bnd_app [comp_simps]:
  "bnd m f E s = (case m E s of None \<Rightarrow> None
     | Some (Inl e, s') \<Rightarrow> Some (Inl e, s') | Some (Inr x, s') \<Rightarrow> f x E s')"
  by (simp add: bnd_def)

lemma andthen_app [comp_simps]:
  "andthen m k E s = (case m E s of None \<Rightarrow> None
     | Some (Inl e, s') \<Rightarrow> Some (Inl e, s') | Some (Inr _, s') \<Rightarrow> k E s')"
  by (simp add: andthen_def bnd_def)

lemma catch_app [comp_simps]:
  "catch m h E s = (case m E s of None \<Rightarrow> None
     | Some (Inl e, s') \<Rightarrow> h e E s' | Some (Inr x, s') \<Rightarrow> Some (Inr x, s'))"
  by (simp add: catch_def)

lemma ensure_app [comp_simps]:
  "ensure m f E s = (case m E s of None \<Rightarrow> None
     | Some (r, s') \<Rightarrow> (case f E s' of None \<Rightarrow> None
         | Some (Inl e, s'') \<Rightarrow> Some (Inl e, s'') | Some (Inr _, s'') \<Rightarrow> Some (r, s'')))"
  by (simp add: ensure_def)

lemma lift_res_app [comp_simps]: "lift_res r E s = Some (r, s)"
  by (simp add: lift_res_def)

lemma ask_app [comp_simps]: "ask f E s = Some (Inr (f E), s)"
  by (simp add: ask_def)

lemma get_st_app [comp_simps]: "get_st f E s = Some (Inr (f s), s)"
  by (simp add: get_st_def)

lemma modify_st_app [comp_simps]: "modify_st f E s = Some (Inr (), f s)"
  by (simp add: modify_st_def)

lemma skip_app [comp_simps]: "skip E s = Some (Inr (), s)"
  by (simp add: skip_def ret_app)

lemma whenc_app [comp_simps]: "whenc b m E s = (if b then m E s else Some (Inr (), s))"
  by (simp add: whenc_def skip_app)

lemma bnd_assoc: "bnd (bnd m f) g = bnd m (\<lambda>x. bnd (f x) g)"
  by (rule ext)+ (simp add: bnd_app split: option.splits sum.splits prod.splits)

lemma bnd_ret [simp]: "bnd (ret x) f = f x"
  by (rule ext)+ (simp add: comp_simps)

lemma for_each_append: "for_each (xs @ ys) f = andthen (for_each xs f) (for_each ys f)"
proof (induction xs)
  case Nil
  show ?case by (rule ext)+ (simp add: comp_simps)
next
  case (Cons x xs)
  then show ?case
    by (simp add: andthen_def bnd_assoc)
qed

lemma fold_comp_append: "fold_comp f (xs @ ys) b = bnd (fold_comp f xs b) (fold_comp f ys)"
proof (induction xs arbitrary: b)
  case (Cons x xs)
  then have "fold_comp f (xs @ ys) = (\<lambda>b. bnd (fold_comp f xs b) (fold_comp f ys))" by (rule ext)
  then show ?case by (simp add: bnd_assoc)
qed simp

section \<open>Preservation of a predicate\<close>

definition keeps :: "('e \<Rightarrow> 's \<Rightarrow> bool) \<Rightarrow> ('e, 's, 'a) comp \<Rightarrow> bool" where
  "keeps P m \<longleftrightarrow> (\<forall>E s r s'. P E s \<longrightarrow> m E s = Some (r, s') \<longrightarrow> P E s')"

lemma keepsI: "(\<And>E s r s'. P E s \<Longrightarrow> m E s = Some (r, s') \<Longrightarrow> P E s') \<Longrightarrow> keeps P m"
  unfolding keeps_def by blast

lemma keepsD: "keeps P m \<Longrightarrow> P E s \<Longrightarrow> m E s = Some (r, s') \<Longrightarrow> P E s'"
  unfolding keeps_def by blast

lemma keeps_ret [keeps_rules]: "keeps P (ret x)"
  by (rule keepsI) (simp add: ret_app)

lemma keeps_raise [keeps_rules]: "keeps P (raise e)"
  by (rule keepsI) (simp add: raise_app)

lemma keeps_skip [keeps_rules]: "keeps P skip"
  by (simp add: skip_def keeps_ret)

lemma keeps_lift_res [keeps_rules]: "keeps P (lift_res r)"
  by (rule keepsI) (simp add: lift_res_app)

lemma keeps_ask [keeps_rules]: "keeps P (ask f)"
  by (rule keepsI) (simp add: ask_app)

lemma keeps_get_st [keeps_rules]: "keeps P (get_st f)"
  by (rule keepsI) (simp add: get_st_app)

lemma keeps_modify_st: "(\<And>E s. P E s \<Longrightarrow> P E (f s)) \<Longrightarrow> keeps P (modify_st f)"
  by (rule keepsI) (auto simp: modify_st_app)

lemma keeps_bnd [keeps_rules]:
  assumes m: "keeps P m" and f: "\<And>x. keeps P (f x)"
  shows "keeps P (bnd m f)"
proof (rule keepsI)
  fix E s r s'
  assume s: "P E s" and run: "bnd m f E s = Some (r, s')"
  from run obtain q s1 where m1: "m E s = Some (q, s1)"
    by (auto simp: bnd_app split: option.splits)
  from m s m1 have s1: "P E s1" by (rule keepsD)
  show "P E s'"
  proof (cases q)
    case (Inl e)
    with run m1 s1 show ?thesis by (simp add: bnd_app)
  next
    case (Inr x)
    with run m1 have "f x E s1 = Some (r, s')" by (simp add: bnd_app)
    with f s1 show ?thesis by (rule keepsD)
  qed
qed

lemma keeps_andthen [keeps_rules]: "keeps P m \<Longrightarrow> keeps P k \<Longrightarrow> keeps P (andthen m k)"
  by (simp add: andthen_def keeps_bnd)

lemma keeps_catch [keeps_rules]:
  assumes m: "keeps P m" and h: "\<And>e. keeps P (h e)"
  shows "keeps P (catch m h)"
proof (rule keepsI)
  fix E s r s'
  assume s: "P E s" and run: "catch m h E s = Some (r, s')"
  from run obtain q s1 where m1: "m E s = Some (q, s1)"
    by (auto simp: catch_app split: option.splits)
  from m s m1 have s1: "P E s1" by (rule keepsD)
  show "P E s'"
  proof (cases q)
    case (Inl e)
    with run m1 have "h e E s1 = Some (r, s')" by (simp add: catch_app)
    with h s1 show ?thesis by (rule keepsD)
  next
    case (Inr x)
    with run m1 s1 show ?thesis by (simp add: catch_app)
  qed
qed

lemma keeps_ensure [keeps_rules]:
  assumes m: "keeps P m" and f: "keeps P f"
  shows "keeps P (ensure m f)"
proof (rule keepsI)
  fix E s r s'
  assume s: "P E s" and run: "ensure m f E s = Some (r, s')"
  from run obtain q s1 where m1: "m E s = Some (q, s1)"
    by (auto simp: ensure_app split: option.splits)
  with run obtain u where f1: "f E s1 = Some (u, s')"
    by (auto simp: ensure_app split: option.splits sum.splits prod.splits)
  from m s m1 have "P E s1" by (rule keepsD)
  with f show "P E s'" using f1 by (rule keepsD)
qed

lemma keeps_whenc [keeps_rules]: "keeps P m \<Longrightarrow> keeps P (whenc b m)"
  by (simp add: whenc_def keeps_skip)

lemma keeps_if [keeps_rules]:
  "(b \<Longrightarrow> keeps P m) \<Longrightarrow> (\<not> b \<Longrightarrow> keeps P k) \<Longrightarrow> keeps P (if b then m else k)"
  by simp

lemma keeps_case_option [keeps_rules]:
  "keeps P m \<Longrightarrow> (\<And>x. keeps P (f x)) \<Longrightarrow> keeps P (case z of None \<Rightarrow> m | Some x \<Rightarrow> f x)"
  by (cases z) simp_all

lemma keeps_case_sum [keeps_rules]:
  "(\<And>x. keeps P (f x)) \<Longrightarrow> (\<And>x. keeps P (g x)) \<Longrightarrow>
     keeps P (case z of Inl x \<Rightarrow> f x | Inr x \<Rightarrow> g x)"
  by (cases z) simp_all

lemma keeps_case_prod [keeps_rules]:
  "(\<And>x y. keeps P (f x y)) \<Longrightarrow> keeps P (case z of (x, y) \<Rightarrow> f x y)"
  by (cases z) simp

lemma keeps_case_list [keeps_rules]:
  "keeps P m \<Longrightarrow> (\<And>x xs. keeps P (f x xs)) \<Longrightarrow> keeps P (case z of [] \<Rightarrow> m | x # xs \<Rightarrow> f x xs)"
  by (cases z) simp_all

lemma keeps_for_each [keeps_rules]: "(\<And>x. keeps P (f x)) \<Longrightarrow> keeps P (for_each xs f)"
  by (induction xs) (simp_all add: keeps_rules)

lemma keeps_fold_comp [keeps_rules]: "(\<And>x b. keeps P (f x b)) \<Longrightarrow> keeps P (fold_comp f xs b)"
  by (induction xs arbitrary: b) (simp_all add: keeps_rules)

lemma keeps_block: "(\<And>m. m \<in> set ms \<Longrightarrow> keeps P m) \<Longrightarrow> keeps P (block ms)"
  by (induction ms) (simp_all add: keeps_rules)

lemma keeps_block_Nil [keeps_rules]: "keeps P (block [])"
  by (simp add: keeps_skip)

lemma keeps_block_Cons [keeps_rules]: "keeps P m \<Longrightarrow> keeps P (block ms) \<Longrightarrow> keeps P (block (m # ms))"
  by (simp add: keeps_andthen)

section \<open>What a computation returns\<close>

definition yields :: "('a \<Rightarrow> bool) \<Rightarrow> ('e, 's, 'a) comp \<Rightarrow> bool" where
  "yields Q m \<longleftrightarrow> (\<forall>E s x s'. m E s = Some (Inr x, s') \<longrightarrow> Q x)"

lemma yieldsI: "(\<And>E s x s'. m E s = Some (Inr x, s') \<Longrightarrow> Q x) \<Longrightarrow> yields Q m"
  unfolding yields_def by blast

lemma yieldsD: "yields Q m \<Longrightarrow> m E s = Some (Inr x, s') \<Longrightarrow> Q x"
  unfolding yields_def by blast

lemma yields_ret [yields_rules]: "Q x \<Longrightarrow> yields Q (ret x)"
  by (rule yieldsI) (simp add: ret_app)

lemma yields_raise [yields_rules]: "yields Q (raise e)"
  by (rule yieldsI) (simp add: raise_app)

lemma bnd_InrE:
  assumes "bnd m f E s = Some (Inr y, s')"
  obtains x s1 where "m E s = Some (Inr x, s1)" and "f x E s1 = Some (Inr y, s')"
  using assms by (auto simp: bnd_app split: option.splits sum.splits prod.splits)

lemma andthen_InrE:
  assumes "andthen m k E s = Some (Inr y, s')"
  obtains x s1 where "m E s = Some (Inr x, s1)" and "k E s1 = Some (Inr y, s')"
  using assms by (auto simp: andthen_app split: option.splits sum.splits prod.splits)

text \<open>The two ways a sequence ends: its first part raises, or it returns and the rest runs.\<close>

lemma bndE:
  assumes "bnd m f E s = Some (r, s')"
  obtains (raised) e where "m E s = Some (Inl e, s')" and "r = Inl e"
  | (returned) x s1 where "m E s = Some (Inr x, s1)" and "f x E s1 = Some (r, s')"
  using assms by (auto simp: bnd_app split: option.splits sum.splits prod.splits)

lemma andthenE:
  assumes "andthen m k E s = Some (r, s')"
  obtains (raised) e where "m E s = Some (Inl e, s')" and "r = Inl e"
  | (returned) x s1 where "m E s = Some (Inr x, s1)" and "k E s1 = Some (r, s')"
  using assms unfolding andthen_def by (rule bndE)

lemma fold_comp_ConsE:
  assumes "fold_comp f (x # xs) b E s = Some (Inr y, s')"
  obtains c s1 where "f x b E s = Some (Inr c, s1)" and "fold_comp f xs c E s1 = Some (Inr y, s')"
  using assms unfolding fold_comp.simps by (rule bnd_InrE)

lemma yields_bnd:
  assumes "yields R m" and "\<And>x. R x \<Longrightarrow> yields Q (f x)"
  shows "yields Q (bnd m f)"
  by (rule yieldsI) (blast elim: bnd_InrE dest: yieldsD [OF assms(1)] yieldsD [OF assms(2)])

lemma yields_bnd_any [yields_rules]: "(\<And>x. yields Q (f x)) \<Longrightarrow> yields Q (bnd m f)"
  by (rule yields_bnd [where R = "\<lambda>_. True"]) (simp_all add: yields_def)

lemma yields_andthen [yields_rules]: "yields Q k \<Longrightarrow> yields Q (andthen m k)"
  by (simp add: andthen_def yields_bnd_any)

lemma yields_if [yields_rules]:
  "(b \<Longrightarrow> yields Q m) \<Longrightarrow> (\<not> b \<Longrightarrow> yields Q k) \<Longrightarrow> yields Q (if b then m else k)"
  by simp

lemma yields_case_prod [yields_rules]:
  "(\<And>x y. yields Q (f x y)) \<Longrightarrow> yields Q (case z of (x, y) \<Rightarrow> f x y)"
  by (cases z) simp

lemma fold_comp_InlE:
  assumes "fold_comp f xs b E s = Some (Inl e, s')"
  obtains x c s1 where "x \<in> set xs" and "f x c E s1 = Some (Inl e, s')"
  using assms
proof (induction xs arbitrary: b s thesis)
  case Nil
  then show ?case by (simp add: ret_app)
next
  case (Cons x xs)
  show ?case
  proof (cases "f x b E s")
    case None
    with Cons.prems(2) show ?thesis by (simp add: bnd_app)
  next
    case (Some p)
    obtain r s1 where p: "p = (r, s1)" by (cases p)
    show ?thesis
    proof (cases r)
      case (Inl e')
      with Some p Cons.prems show ?thesis by (auto simp: bnd_app)
    next
      case (Inr c)
      with Some p Cons.prems(2) have "fold_comp f xs c E s1 = Some (Inl e, s')"
        by (simp add: bnd_app)
      with Cons.IH Cons.prems(1) show ?thesis by (metis list.set_intros(2))
    qed
  qed
qed

lemma yields_fold_comp:
  assumes "R b" and "\<And>x b. x \<in> set xs \<Longrightarrow> R b \<Longrightarrow> yields R (f x b)"
  shows "yields R (fold_comp f xs b)"
  using assms
proof (induction xs arbitrary: b)
  case Nil
  then show ?case by (simp add: yields_ret)
next
  case (Cons x xs)
  show ?case
    unfolding fold_comp.simps
    by (rule yields_bnd [where R = R]) (simp_all add: Cons)
qed

text \<open>What the first part returns may be used for the second.\<close>

lemma keeps_bnd_yields:
  assumes "keeps P m" and "yields Q m" and "\<And>x. Q x \<Longrightarrow> keeps P (f x)"
  shows "keeps P (bnd m f)"
proof (rule keepsI)
  fix E s r s'
  assume s: "P E s" and run: "bnd m f E s = Some (r, s')"
  from run show "P E s'"
  proof (cases rule: bndE)
    case raised
    with assms(1) s show ?thesis by (blast dest: keepsD)
  next
    case (returned x s1)
    with assms s show ?thesis by (meson keepsD yieldsD)
  qed
qed

section \<open>Computations that return\<close>

text \<open>In every environment and state the computation ends, with a value or an exception.\<close>

definition returns :: "('e, 's, 'a) comp \<Rightarrow> bool" where
  "returns m \<longleftrightarrow> (\<forall>E s. m E s \<noteq> None)"

lemma returnsI: "(\<And>E s. m E s \<noteq> None) \<Longrightarrow> returns m"
  by (simp add: returns_def)

lemma returnsD: "returns m \<Longrightarrow> \<exists>r s'. m E s = Some (r, s')"
  by (simp add: returns_def)

lemma returns_ret [returns_rules]: "returns (ret x)"
  by (simp add: returns_def ret_app)

lemma returns_raise [returns_rules]: "returns (raise e)"
  by (simp add: returns_def raise_app)

lemma returns_skip [returns_rules]: "returns skip"
  by (simp add: returns_def skip_app)

lemma returns_lift_res [returns_rules]: "returns (lift_res r)"
  by (simp add: returns_def lift_res_app)

lemma returns_ask [returns_rules]: "returns (ask f)"
  by (simp add: returns_def ask_app)

lemma returns_get_st [returns_rules]: "returns (get_st f)"
  by (simp add: returns_def get_st_app)

lemma returns_modify_st [returns_rules]: "returns (modify_st f)"
  by (simp add: returns_def modify_st_app)

lemma returns_bnd [returns_rules]: "returns m \<Longrightarrow> (\<And>x. returns (f x)) \<Longrightarrow> returns (bnd m f)"
  by (auto simp: returns_def bnd_app split: option.splits sum.splits)

lemma returns_andthen [returns_rules]: "returns m \<Longrightarrow> returns k \<Longrightarrow> returns (andthen m k)"
  by (simp add: andthen_def returns_bnd)

lemma returns_catch [returns_rules]: "returns m \<Longrightarrow> (\<And>e. returns (h e)) \<Longrightarrow> returns (catch m h)"
  by (auto simp: returns_def catch_app split: option.splits sum.splits)

lemma returns_ensure [returns_rules]: "returns m \<Longrightarrow> returns f \<Longrightarrow> returns (ensure m f)"
  unfolding returns_def ensure_app
  by (auto split: option.splits sum.splits) (metis option.distinct(1))

lemma returns_whenc [returns_rules]: "returns m \<Longrightarrow> returns (whenc b m)"
  by (simp add: whenc_def returns_skip)

lemma returns_if [returns_rules]:
  "(b \<Longrightarrow> returns m) \<Longrightarrow> (\<not> b \<Longrightarrow> returns k) \<Longrightarrow> returns (if b then m else k)"
  by simp

lemma returns_case_option [returns_rules]:
  "returns m \<Longrightarrow> (\<And>x. returns (f x)) \<Longrightarrow> returns (case z of None \<Rightarrow> m | Some x \<Rightarrow> f x)"
  by (cases z) simp_all

lemma returns_case_sum [returns_rules]:
  "(\<And>x. returns (f x)) \<Longrightarrow> (\<And>x. returns (g x)) \<Longrightarrow>
     returns (case z of Inl x \<Rightarrow> f x | Inr x \<Rightarrow> g x)"
  by (cases z) simp_all

lemma returns_case_prod [returns_rules]:
  "(\<And>x y. returns (f x y)) \<Longrightarrow> returns (case z of (x, y) \<Rightarrow> f x y)"
  by (cases z) simp

lemma returns_for_each [returns_rules]: "(\<And>x. returns (f x)) \<Longrightarrow> returns (for_each xs f)"
  by (induction xs) (simp_all add: returns_rules)

lemma returns_fold_comp [returns_rules]: "(\<And>x b. returns (f x b)) \<Longrightarrow> returns (fold_comp f xs b)"
  by (induction xs arbitrary: b) (simp_all add: returns_rules)

lemma returns_block_Nil [returns_rules]: "returns (block [])"
  by (simp add: returns_skip)

lemma returns_block_Cons [returns_rules]: "returns m \<Longrightarrow> returns (block ms) \<Longrightarrow> returns (block (m # ms))"
  by (simp add: returns_andthen)

text \<open>What the first part returns may be used for the second.\<close>

lemma returns_bnd_yields:
  assumes "returns m" and "yields Q m" and "\<And>x. Q x \<Longrightarrow> returns (f x)"
  shows "returns (bnd m f)"
proof (rule returnsI)
  fix E s
  obtain r s1 where m: "m E s = Some (r, s1)" using returnsD [OF assms(1)] by blast
  show "bnd m f E s \<noteq> None"
  proof (cases r)
    case (Inl e)
    with m show ?thesis by (simp add: bnd_app)
  next
    case (Inr x)
    with m have "Q x" by (auto dest: yieldsD [OF assms(2)])
    with assms(3) m Inr show ?thesis by (simp add: bnd_app returns_def)
  qed
qed

section \<open>Computations that complete\<close>

text \<open>In this environment the computation always ends with a value.\<close>

definition completes :: "'e \<Rightarrow> ('e, 's, 'a) comp \<Rightarrow> bool" where
  "completes E m \<longleftrightarrow> (\<forall>s. \<exists>x s'. m E s = Some (Inr x, s'))"

lemma completesD: "completes E m \<Longrightarrow> \<exists>x s'. m E s = Some (Inr x, s')"
  by (simp add: completes_def)

lemma completes_ret [completes_rules]: "completes E (ret x)"
  by (simp add: completes_def ret_app)

lemma completes_skip [completes_rules]: "completes E skip"
  by (simp add: completes_def skip_app)

lemma completes_get_st [completes_rules]: "completes E (get_st f)"
  by (simp add: completes_def get_st_app)

lemma completes_ask [completes_rules]: "completes E (ask f)"
  by (simp add: completes_def ask_app)

lemma completes_modify_st [completes_rules]: "completes E (modify_st f)"
  by (simp add: completes_def modify_st_app)

lemma completes_lift_res: "completes E (lift_res (Inr x))"
  by (simp add: completes_def lift_res_app)

lemma completes_bnd [completes_rules]:
  assumes m: "completes E m" and f: "\<And>x. completes E (f x)"
  shows "completes E (bnd m f)"
  unfolding completes_def
proof
  fix s
  from m obtain x s1 where "m E s = Some (Inr x, s1)" by (blast dest: completesD)
  moreover from f obtain y s2 where "f x E s1 = Some (Inr y, s2)" by (blast dest: completesD)
  ultimately show "\<exists>y s'. bnd m f E s = Some (Inr y, s')" by (simp add: bnd_app)
qed

lemma completes_andthen [completes_rules]:
  "completes E m \<Longrightarrow> completes E k \<Longrightarrow> completes E (andthen m k)"
  by (simp add: andthen_def completes_bnd)

lemma completes_if [completes_rules]:
  "(b \<Longrightarrow> completes E m) \<Longrightarrow> (\<not> b \<Longrightarrow> completes E k) \<Longrightarrow> completes E (if b then m else k)"
  by simp

lemma completes_case_prod [completes_rules]:
  "(\<And>x y. completes E (f x y)) \<Longrightarrow> completes E (case z of (x, y) \<Rightarrow> f x y)"
  by (cases z) simp

lemma completes_for_each:
  "(\<And>x. x \<in> set xs \<Longrightarrow> completes E (f x)) \<Longrightarrow> completes E (for_each xs f)"
  by (induction xs) (simp_all add: completes_rules)

lemma completes_whenc [completes_rules]: "completes E m \<Longrightarrow> completes E (whenc b m)"
  by (simp add: whenc_def completes_skip)

lemma completes_block_Nil [completes_rules]: "completes E (block [])"
  by (simp add: completes_skip)

lemma completes_block_Cons [completes_rules]:
  "completes E m \<Longrightarrow> completes E (block ms) \<Longrightarrow> completes E (block (m # ms))"
  by (simp add: completes_andthen)

section \<open>Loops that may not end\<close>

text \<open>
  \<open>while\<close> loops without a bound: the body, given the loop's variables, says \<open>Inl b\<close> to go on with
  \<open>b\<close> or \<open>Inr x\<close> to leave the loop with \<open>x\<close>. A loop that is never left is \<open>None\<close>.
\<close>

partial_function (option) iterate ::
  "('b \<Rightarrow> ('e, 's, 'b + 'a) comp) \<Rightarrow> 'b \<Rightarrow> 'e \<Rightarrow> 's \<Rightarrow> ((exn + 'a) \<times> 's) option" where
  "iterate f b E s = (case f b E s of
       None \<Rightarrow> None
     | Some (Inl e, s') \<Rightarrow> Some (Inl e, s')
     | Some (Inr (Inl b'), s') \<Rightarrow> iterate f b' E s'
     | Some (Inr (Inr x), s') \<Rightarrow> Some (Inr x, s'))"

declare iterate.simps [code]

lemma iterate_raise: "f b E s = Some (Inl e, s') \<Longrightarrow> iterate f b E s = Some (Inl e, s')"
  by (subst iterate.simps) simp

lemma iterate_leave: "f b E s = Some (Inr (Inr x), s') \<Longrightarrow> iterate f b E s = Some (Inr x, s')"
  by (subst iterate.simps) simp

lemma iterate_again: "f b E s = Some (Inr (Inl b'), s') \<Longrightarrow> iterate f b E s = iterate f b' E s'"
  by (subst iterate.simps) simp

lemma iterate_stuck: "f b E s = None \<Longrightarrow> iterate f b E s = None"
  by (subst iterate.simps) simp

text \<open>A loop invariant: it holds whenever the body starts, and gives \<open>Q\<close> when the loop is left.\<close>

lemma iterate_invariant:
  assumes run: "iterate f b E s = Some (r, s')" and start: "I b s"
    and again: "\<And>b s b' s'. I b s \<Longrightarrow> f b E s = Some (Inr (Inl b'), s') \<Longrightarrow> I b' s'"
    and leave: "\<And>b s x s'. I b s \<Longrightarrow> f b E s = Some (Inr (Inr x), s') \<Longrightarrow> Q (Inr x) s'"
    and raised: "\<And>b s e s'. I b s \<Longrightarrow> f b E s = Some (Inl e, s') \<Longrightarrow> Q (Inl e) s'"
  shows "Q r s'"
proof -
  let ?P = "\<lambda>g c F t p. g = f \<and> F = E \<and> I c t \<longrightarrow> Q (fst p) (snd p)"
  have "?P f b E s (r, s')"
    by (rule iterate.raw_induct [where P = ?P, OF _ run])
      (auto split: option.splits sum.splits prod.splits dest: again leave raised)
  with start show ?thesis by simp
qed

lemma keeps_iterate [keeps_rules]:
  assumes "\<And>b. keeps P (f b)"
  shows "keeps P (iterate f b)"
proof (rule keepsI)
  fix E s r s'
  assume P: "P E s" and run: "iterate f b E s = Some (r, s')"
  have step: "P E s \<Longrightarrow> f b E s = Some (r, s') \<Longrightarrow> P E s'" for b s r s'
    using assms by (rule keepsD)
  show "P E s'"
    by (rule iterate_invariant [where I = "\<lambda>_ s. P E s" and Q = "\<lambda>_ s. P E s", OF run P])
      (erule step, assumption)+
qed

lemma yields_iterate:
  assumes body: "\<And>b. yields (\<lambda>z. case z of Inl _ \<Rightarrow> True | Inr x \<Rightarrow> Q x) (f b)"
  shows "yields Q (iterate f b)"
proof (rule yieldsI)
  fix E s x s'
  assume run: "iterate f b E s = Some (Inr x, s')"
  have "case Inr x of Inl (e :: exn) \<Rightarrow> True | Inr x \<Rightarrow> Q x"
    by (rule iterate_invariant [where I = "\<lambda>_ _. True"
          and Q = "\<lambda>r _. case r of Inl e \<Rightarrow> True | Inr x \<Rightarrow> Q x", OF run])
      (auto dest: yieldsD [OF body])
  then show "Q x" by simp
qed

text \<open>With a measure that decreases from one round to the next the loop ends.\<close>

lemma returns_iterate:
  fixes m :: "'b \<Rightarrow> nat"
  assumes body: "\<And>b. returns (f b)"
    and less: "\<And>b E s b' s'. f b E s = Some (Inr (Inl b'), s') \<Longrightarrow> m b' < m b"
  shows "returns (iterate f b)"
proof (rule returnsI)
  fix E s
  show "iterate f b E s \<noteq> None"
  proof (induction "m b" arbitrary: b s rule: less_induct)
    case less
    obtain r s' where run: "f b E s = Some (r, s')" using returnsD [OF body] by blast
    show ?case
    proof (cases r)
      case (Inl e)
      with run iterate_raise show ?thesis by fastforce
    next
      case (Inr z)
      show ?thesis
      proof (cases z)
        case (Inl b')
        with run Inr have step: "f b E s = Some (Inr (Inl b'), s')" by simp
        then have "iterate f b E s = iterate f b' E s'" by (rule iterate_again)
        with less.hyps [OF assms(2), OF step] show ?thesis by simp
      next
        case (Inr x)
        with run \<open>r = Inr z\<close> iterate_leave show ?thesis by fastforce
      qed
    qed
  qed
qed

text \<open>A loop whose rounds are known in advance is a \<open>for\<close> loop.\<close>

lemma iterate_for_each:
  assumes "\<And>i. i < n \<Longrightarrow> f (b i) = andthen (body i) (ret (Inl (b (Suc i))))"
    and "f (b n) = ret (Inr x)"
  shows "iterate f (b 0) = andthen (for_each [0..<n] body) (ret x)"
  using assms
proof (induction n arbitrary: b body)
  case 0
  show ?case by (rule ext)+ (simp add: iterate_leave 0 comp_simps)
next
  case (Suc n)
  have rest: "iterate f (b (Suc 0)) = andthen (for_each [0..<n] (\<lambda>i. body (Suc i))) (ret x)"
    using Suc.IH [of "\<lambda>i. b (Suc i)" "\<lambda>i. body (Suc i)"] Suc.prems by simp
  have shift: "for_each (map Suc [0..<n]) body = for_each [0..<n] (\<lambda>i. body (Suc i))"
    by (induction n) (simp_all add: for_each_append)
  have split: "for_each [0..<Suc n] body = andthen (body 0) (for_each [0..<n] (\<lambda>i. body (Suc i)))"
    by (simp add: upt_rec [of 0 "Suc n"] map_Suc_upt [symmetric] shift del: upt_Suc)
  show ?case
  proof (rule ext)+
    fix E s
    have step: "f (b 0) E s = andthen (body 0) (ret (Inl (b (Suc 0)))) E s"
      using Suc.prems(1) [of 0] by simp
    show "iterate f (b 0) E s = andthen (for_each [0..<Suc n] body) (ret x) E s"
    proof (cases "body 0 E s")
      case None
      with step show ?thesis
        unfolding split by (subst iterate_stuck) (simp_all add: andthen_app)
    next
      case (Some z)
      obtain r s1 where z: "z = (r, s1)" by (cases z)
      show ?thesis
      proof (cases r)
        case (Inl e)
        with Some z step have "f (b 0) E s = Some (Inl e, s1)" by (simp add: andthen_app)
        from iterate_raise [of f, OF this] Some z Inl show ?thesis unfolding split by (simp add: andthen_app)
      next
        case (Inr u)
        with Some z step have "f (b 0) E s = Some (Inr (Inl (b (Suc 0))), s1)"
          by (simp add: andthen_app ret_app)
        from iterate_again [of f, OF this] Some z Inr rest show ?thesis
          unfolding split by (simp add: andthen_app)
      qed
    qed
  qed
qed

section \<open>Pure steps that may raise\<close>

definition rbind :: "exn + 'a \<Rightarrow> ('a \<Rightarrow> exn + 'b) \<Rightarrow> exn + 'b" where
  "rbind r f = (case r of Inl e \<Rightarrow> Inl e | Inr x \<Rightarrow> f x)"

lemma rbind_simps [simp]: "rbind (Inl e) f = Inl e" "rbind (Inr x) f = f x"
  by (simp_all add: rbind_def)

lemma rbind_Inr_iff: "rbind r f = Inr y \<longleftrightarrow> (\<exists>x. r = Inr x \<and> f x = Inr y)"
  by (cases r) simp_all

section \<open>Lists\<close>

text \<open>Python compares strings character by character: a prefix comes first.\<close>

lemma prefix_le_lexord: "prefix xs ys \<Longrightarrow> xs \<le> (ys :: 'a :: order list)"
proof (induction xs arbitrary: ys)
  case Nil
  then show ?case by simp
next
  case (Cons x xs)
  then obtain zs where "ys = x # zs" and "prefix xs zs" by (cases ys) auto
  with Cons.IH show ?case by simp
qed

lemma sorted_distinct_nth_less:
  "sorted xs \<Longrightarrow> distinct xs \<Longrightarrow> i < length xs \<Longrightarrow> j < length xs \<Longrightarrow>
     xs ! i < xs ! j \<longleftrightarrow> i < j"
  by (metis (no_types) linorder_less_linear nth_eq_iff_index_eq order_less_le
      order_less_asym' sorted_nth_mono)

end
