(* ===== verification/PyText.thy ===== *)
theory PyText
  imports Prelude
begin

text \<open>
  The string operations of Python the sources use: \<open>split\<close> in its three forms, \<open>strip\<close>,
  \<open>startswith\<close>, \<open>isdigit\<close>, slices, \<open>join\<close>, iteration over the lines of a file,
  \<open>int\<close>, \<open>float\<close> and \<open>str\<close>. A \<open>str\<close> is a list of ASCII characters; where Python's
  own classes of characters go beyond ASCII (other white space, other digits) nothing here
  applies.
\<close>

section \<open>Characters\<close>

definition is_space :: "char \<Rightarrow> bool" where
  "is_space c \<longleftrightarrow> (let n = (of_char c :: nat) in (9 \<le> n \<and> n \<le> 13) \<or> (28 \<le> n \<and> n \<le> 32))"

definition is_digit :: "char \<Rightarrow> bool" where
  "is_digit c \<longleftrightarrow> (let n = (of_char c :: nat) in 48 \<le> n \<and> n \<le> 57)"

definition digit_val :: "char \<Rightarrow> nat" where
  "digit_val c = of_char c - 48"

abbreviation NL :: char where "NL \<equiv> CHR 0x0A"
abbreviation TAB :: char where "TAB \<equiv> CHR 0x09"

lemma is_digit_not_space: "is_digit c \<Longrightarrow> \<not> is_space c"
  by (auto simp: is_digit_def is_space_def Let_def)

section \<open>Tests and slices\<close>

definition startswith :: "string \<Rightarrow> string \<Rightarrow> bool" where
  "startswith s p \<longleftrightarrow> take (length p) s = p"

lemma startswith_iff_prefix: "startswith s p \<longleftrightarrow> prefix p s"
proof
  assume "startswith s p"
  then show "prefix p s" unfolding startswith_def by (metis take_is_prefix)
next
  assume "prefix p s"
  then show "startswith s p" by (auto simp: startswith_def prefix_def)
qed

lemma startswith_append [simp]: "startswith (p @ s) p"
  by (simp add: startswith_def)

lemma startswith_simps [simp]:
  "startswith s []" "\<not> startswith [] (c # p)"
  "startswith (x # s) (c # p) \<longleftrightarrow> x = c \<and> startswith s p"
  by (auto simp: startswith_def)

text \<open>\<open>p in s\<close>\<close>

fun contains :: "string \<Rightarrow> string \<Rightarrow> bool" where
  "contains [] p = (p = [])"
| "contains (c # s) p = (startswith (c # s) p \<or> contains s p)"

lemma contains_iff: "contains s p \<longleftrightarrow> sublist p s"
proof (induction s)
  case Nil
  then show ?case by simp
next
  case (Cons c s)
  then show ?case by (auto simp: startswith_iff_prefix sublist_Cons_right)
qed

text \<open>\<open>s.isdigit()\<close>: false on the empty string.\<close>

definition isdigit :: "string \<Rightarrow> bool" where
  "isdigit s \<longleftrightarrow> s \<noteq> [] \<and> list_all is_digit s"

text \<open>\<open>s[:-n]\<close> and \<open>s[-1:]\<close>\<close>

definition drop_end :: "nat \<Rightarrow> string \<Rightarrow> string" where
  "drop_end n s = take (length s - n) s"

definition last1 :: "string \<Rightarrow> string" where
  "last1 s = drop (length s - 1) s"

text \<open>\<open>xs[i]\<close> with a non-negative index raises \<open>IndexError\<close> past the end.\<close>

definition index :: "'a list \<Rightarrow> nat \<Rightarrow> exn + 'a" where
  "index xs i = (if i < length xs then Inr (xs ! i) else Inl IndexError)"

lemma index_Inr_iff: "index xs i = Inr x \<longleftrightarrow> i < length xs \<and> xs ! i = x"
  by (auto simp: index_def)

section \<open>Splitting and joining\<close>

text \<open>\<open>s.split(c)\<close>: the pieces between the separators, at least one.\<close>

fun split_on :: "char \<Rightarrow> string \<Rightarrow> string list" where
  "split_on c [] = [[]]"
| "split_on c (x # xs) =
     (if x = c then [] # split_on c xs
      else (case split_on c xs of [] \<Rightarrow> [[x]] | w # ws \<Rightarrow> (x # w) # ws))"

text \<open>\<open>s.split(c, 1)\<close>: one separator at most; a missing separator gives one piece.\<close>

fun split_once :: "char \<Rightarrow> string \<Rightarrow> string list" where
  "split_once c [] = [[]]"
| "split_once c (x # xs) =
     (if x = c then [[], xs]
      else (case split_once c xs of [] \<Rightarrow> [[x]] | w # ws \<Rightarrow> (x # w) # ws))"

text \<open>\<open>(a, b) = s.split(c, 1)\<close> raises \<open>ValueError\<close> when there is one piece only.\<close>

definition unpack2 :: "'a list \<Rightarrow> exn + ('a \<times> 'a)" where
  "unpack2 xs = (case xs of [a, b] \<Rightarrow> Inr (a, b) | _ \<Rightarrow> Inl ValueError)"

text \<open>\<open>s.split()\<close>: the words between runs of white space. \<open>w\<close> is the word being read.\<close>

fun words_acc :: "string \<Rightarrow> string \<Rightarrow> string list" where
  "words_acc w [] = (if w = [] then [] else [rev w])"
| "words_acc w (x # xs) =
     (if is_space x then (if w = [] then words_acc [] xs else rev w # words_acc [] xs)
      else words_acc (x # w) xs)"

definition words :: "string \<Rightarrow> string list" where
  "words s = words_acc [] s"

text \<open>\<open>c.join(ws)\<close>\<close>

fun join :: "string \<Rightarrow> string list \<Rightarrow> string" where
  "join c [] = []"
| "join c [w] = w"
| "join c (w # ws) = w @ c @ join c ws"

text \<open>\<open>s.strip()\<close> and \<open>s.strip(c)\<close>\<close>

definition strip_if :: "(char \<Rightarrow> bool) \<Rightarrow> string \<Rightarrow> string" where
  "strip_if p s = rev (dropWhile p (rev (dropWhile p s)))"

definition strip :: "string \<Rightarrow> string" where
  "strip s = strip_if is_space s"

text \<open>Iterating over a text file: every line with its newline, the last one maybe without.\<close>

fun file_lines :: "string \<Rightarrow> string list" where
  "file_lines [] = []"
| "file_lines (x # xs) =
     (if x = NL then [NL] # file_lines xs
      else (case file_lines xs of [] \<Rightarrow> [[x]] | l # ls \<Rightarrow> (x # l) # ls))"

text \<open>\<open>f.readline()\<close>: the empty string at the end of the file.\<close>

definition first_line :: "string \<Rightarrow> string" where
  "first_line s = (case file_lines s of [] \<Rightarrow> [] | l # _ \<Rightarrow> l)"

lemma split_on_not_Nil [simp]: "split_on c s \<noteq> []"
  by (induction s) (auto split: list.splits)

lemma split_on_no_sep: "c \<notin> set s \<Longrightarrow> split_on c s = [s]"
  by (induction s) auto

lemma split_on_append: "c \<notin> set w \<Longrightarrow> split_on c (w @ c # s) = w # split_on c s"
  by (induction w) auto

lemma split_on_pieces: "w \<in> set (split_on c s) \<Longrightarrow> c \<notin> set w"
  by (induction s arbitrary: w) (auto split: if_splits list.splits)

text \<open>Splitting and joining with the same separator are inverse to each other.\<close>

lemma join_Cons: "ws \<noteq> [] \<Longrightarrow> join c (w # ws) = w @ c @ join c ws"
  by (cases ws) simp_all

lemma join_cons_head: "join c ((x # w) # ws) = x # join c (w # ws)"
  by (cases ws) simp_all

lemma join_split_on: "join [c] (split_on c s) = s"
proof (induction s)
  case Nil
  then show ?case by simp
next
  case (Cons x s)
  then show ?case
    by (cases "split_on c s") (auto simp: join_Cons join_cons_head)
qed

lemma split_on_join:
  assumes "ws \<noteq> []" and "\<forall>w\<in>set ws. c \<notin> set w"
  shows "split_on c (join [c] ws) = ws"
  using assms
proof (induction ws rule: induct_list012)
  case 1
  then show ?case by simp
next
  case (2 w)
  then show ?case by (simp add: split_on_no_sep)
next
  case (3 w v ws)
  then show ?case by (simp add: split_on_append)
qed

lemma split_once_no_sep: "c \<notin> set s \<Longrightarrow> split_once c s = [s]"
  by (induction s) auto

lemma split_once_append: "c \<notin> set w \<Longrightarrow> split_once c (w @ c # s) = [w, s]"
  by (induction w) auto

lemma unpack2_split_once:
  "unpack2 (split_once c s) = Inr (a, b) \<longleftrightarrow> c \<notin> set a \<and> s = a @ c # b"
proof (induction s arbitrary: a)
  case Nil
  then show ?case by (simp add: unpack2_def)
next
  case (Cons x s)
  show ?case
  proof (cases "x = c")
    case True
    then show ?thesis by (cases a) (auto simp: unpack2_def)
  next
    case False
    then show ?thesis
      using Cons.IH [of "tl a"]
      by (cases a; cases "split_once c s")
        (auto simp: unpack2_def split: list.splits)
  qed
qed

lemma words_acc_word:
  "list_all (\<lambda>c. \<not> is_space c) u \<Longrightarrow> words_acc w (u @ s) = words_acc (rev u @ w) s"
  by (induction u arbitrary: w) auto

lemma words_space_Cons: "is_space c \<Longrightarrow> words (c # s) = words s"
  by (simp add: words_def)

lemma words_spaces_append: "list_all is_space u \<Longrightarrow> words (u @ s) = words s"
  by (induction u) (simp_all add: words_space_Cons)

definition is_word :: "string \<Rightarrow> bool" where
  "is_word w \<longleftrightarrow> w \<noteq> [] \<and> list_all (\<lambda>c. \<not> is_space c) w"

lemma words_word_sep: "is_word w \<Longrightarrow> is_space c \<Longrightarrow> words (w @ c # s) = w # words s"
  by (simp add: words_def is_word_def words_acc_word)

lemma words_word: "is_word w \<Longrightarrow> words w = [w]"
  using words_acc_word [of w "[]" "[]"] by (simp add: words_def is_word_def)

lemma words_acc_is_word:
  "list_all (\<lambda>c. \<not> is_space c) u \<Longrightarrow> w \<in> set (words_acc u s) \<Longrightarrow> is_word w"
  by (induction u s rule: words_acc.induct) (auto simp: is_word_def split: if_splits)

lemma words_is_word: "w \<in> set (words s) \<Longrightarrow> is_word w"
  unfolding words_def by (rule words_acc_is_word) simp_all

lemma words_Nil [simp]: "words [] = []"
  by (simp add: words_def)

text \<open>Leading and trailing white space does not change the words of a line.\<close>

lemma words_acc_spaces:
  "list_all is_space u \<Longrightarrow> words_acc w u = (if w = [] then [] else [rev w])"
  by (induction u arbitrary: w) auto

lemma words_acc_trailing:
  "list_all is_space u \<Longrightarrow> words_acc w (s @ u) = words_acc w s"
  by (induction w s rule: words_acc.induct) (auto simp: words_acc_spaces)

lemma words_trailing: "list_all is_space u \<Longrightarrow> words (s @ u) = words s"
  by (simp add: words_def words_acc_trailing)

lemma list_all_takeWhile: "list_all p (takeWhile p xs)"
  by (induction xs) auto

lemma words_strip: "words (strip s) = words s"
proof -
  let ?t = "dropWhile is_space s"
  let ?v = "dropWhile is_space (rev ?t)"
  let ?u = "takeWhile is_space (rev ?t)"
  have "rev (?u @ ?v) = ?t" by (simp only: takeWhile_dropWhile_id rev_rev_ident)
  then have "?t = rev ?v @ rev ?u" by (simp only: rev_append)
  then have "?t = strip s @ rev ?u" unfolding strip_def strip_if_def .
  moreover have "list_all is_space (rev ?u)" by (simp add: list_all_takeWhile)
  ultimately have "words ?t = words (strip s)" using words_trailing by metis
  moreover have "words ?t = words s"
    using words_spaces_append [OF list_all_takeWhile [of is_space s], of ?t] by simp
  ultimately show ?thesis by simp
qed

lemma concat_file_lines: "concat (file_lines s) = s"
  by (induction s) (auto split: list.splits)

lemma file_lines_line: "NL \<notin> set l \<Longrightarrow> file_lines (l @ NL # s) = (l @ [NL]) # file_lines s"
  by (induction l) auto

section \<open>Numbers\<close>

text \<open>\<open>str(n)\<close> of an integer\<close>

fun str_of_nat :: "nat \<Rightarrow> string" where
  "str_of_nat n =
     (if n < 10 then [char_of (n + 48)] else str_of_nat (n div 10) @ [char_of (n mod 10 + 48)])"

declare str_of_nat.simps [simp del]

definition str_of_int :: "int \<Rightarrow> string" where
  "str_of_int i = (if i < 0 then CHR ''-'' # str_of_nat (nat (- i)) else str_of_nat (nat i))"

text \<open>
  \<open>int(s)\<close> and the digits of \<open>float(s)\<close>: white space around the number, a sign, digits
  with single underscores between them.
\<close>

fun digits_val :: "nat \<Rightarrow> string \<Rightarrow> nat" where
  "digits_val a [] = a"
| "digits_val a (c # cs) = (if c = CHR ''_'' then digits_val a cs
     else digits_val (10 * a + digit_val c) cs)"

fun digit_part :: "string \<Rightarrow> bool" where
  "digit_part [] = False"
| "digit_part [c] = is_digit c"
| "digit_part (c # d # cs) = (is_digit c \<and>
     (if d = CHR ''_'' then digit_part cs else digit_part (d # cs)))"

definition sign_split :: "string \<Rightarrow> int \<times> string" where
  "sign_split s = (case s of
       [] \<Rightarrow> (1, [])
     | c # cs \<Rightarrow> if c = CHR ''-'' then (-1, cs) else if c = CHR ''+'' then (1, cs) else (1, c # cs))"

definition int_of_str :: "string \<Rightarrow> exn + int" where
  "int_of_str s = (let (g, t) = sign_split (strip s) in
     if digit_part t then Inr (g * int (digits_val 0 t)) else Inl ValueError)"

end
