(* ===== verification/PyNum.thy ===== *)
theory PyNum
  imports Complex_Main PyText
begin

text \<open>
  \<open>int\<close>, \<open>float\<close> and \<open>str\<close> on numbers. A \<open>float\<close> is its exact rational value, \<open>Fin q\<close>, or
  one of the values \<open>int()\<close> rejects. The sources only add, subtract, multiply by two or by
  ten, divide by a hundred or a thousand and truncate numbers with three decimals at most;
  for these, the exact value and the IEEE double have the same integer part as long as
  they stay below \<open>2 ^ 40\<close>, since a value that is not an integer is at least one
  ten-thousandth away from the next one.
\<close>

section \<open>Integers as text\<close>

lemma of_char_of_digit [simp]:
  "d < 10 \<Longrightarrow> (of_char (char_of (d + 48 :: nat) :: char) :: nat) = d + 48"
  by simp

lemma is_digit_char_of [simp]: "d < 10 \<Longrightarrow> is_digit (char_of (d + 48 :: nat))"
  by (simp add: is_digit_def Let_def)

lemma digit_val_char_of [simp]: "d < 10 \<Longrightarrow> digit_val (char_of (d + 48 :: nat)) = d"
  by (simp add: digit_val_def)

lemma is_digit_not_underscore: "is_digit c \<Longrightarrow> c \<noteq> CHR ''_''"
  by (auto simp: is_digit_def)

lemma str_of_nat_digits: "list_all is_digit (str_of_nat n)"
proof (induction n rule: str_of_nat.induct)
  case (1 n)
  show ?case
    by (subst str_of_nat.simps) (use 1 in auto)
qed

lemma str_of_nat_not_Nil [simp]: "str_of_nat n \<noteq> []"
  by (subst str_of_nat.simps) simp

lemma digits_val_append:
  "list_all is_digit t \<Longrightarrow> digits_val a (s @ t) = digits_val (digits_val a s) t"
  by (induction a s rule: digits_val.induct) auto

lemma digits_val_snoc:
  "is_digit c \<Longrightarrow> digits_val a (s @ [c]) = 10 * digits_val a s + digit_val c"
  using is_digit_not_underscore digits_val_append [of "[c]"] by auto

lemma digits_val_str_of_nat [simp]: "digits_val 0 (str_of_nat n) = n"
proof (induction n rule: str_of_nat.induct)
  case (1 n)
  show ?case
  proof (cases "n < 10")
    case True
    then have "char_of (n + 48) \<noteq> CHR ''_''" using is_digit_not_underscore by simp
    with True show ?thesis by (subst str_of_nat.simps) simp
  next
    case False
    with 1 show ?thesis
      by (subst str_of_nat.simps) (simp add: digits_val_snoc)
  qed
qed

lemma digit_part_digits: "s \<noteq> [] \<Longrightarrow> list_all is_digit s \<Longrightarrow> digit_part s"
proof (induction s rule: digit_part.induct)
  case (3 c d cs)
  then show ?case using is_digit_not_underscore by auto
qed auto

lemma strip_word: "list_all (\<lambda>c. \<not> is_space c) s \<Longrightarrow> strip s = s"
proof -
  have *: "list_all (\<lambda>c. \<not> is_space c) t \<Longrightarrow> dropWhile is_space t = t" for t
    by (cases t) auto
  assume "list_all (\<lambda>c. \<not> is_space c) s"
  then show ?thesis by (simp add: strip_def strip_if_def *)
qed

lemma strip_digits: "list_all is_digit s \<Longrightarrow> strip s = s"
  by (rule strip_word) (auto simp: list_all_iff is_digit_not_space)

lemma is_digit_not_sign: "is_digit c \<Longrightarrow> c \<noteq> CHR ''-'' \<and> c \<noteq> CHR ''+''"
  by (auto simp: is_digit_def)

lemma sign_split_digits: "list_all is_digit s \<Longrightarrow> sign_split s = (1, s)"
  by (cases s) (auto simp: sign_split_def dest: is_digit_not_sign)

lemma int_of_str_digits:
  "s \<noteq> [] \<Longrightarrow> list_all is_digit s \<Longrightarrow> int_of_str s = Inr (int (digits_val 0 s))"
  by (simp add: int_of_str_def strip_digits sign_split_digits digit_part_digits)

text \<open>Printing a number and reading it back gives the number.\<close>

lemma int_of_str_of_nat [simp]: "int_of_str (str_of_nat n) = Inr (int n)"
  by (simp add: int_of_str_digits str_of_nat_digits)

lemma isdigit_str_of_nat [simp]: "isdigit (str_of_nat n)"
  by (simp add: isdigit_def str_of_nat_digits)

lemma str_of_nat_word: "is_word (str_of_nat n)"
  using str_of_nat_digits [of n] by (auto simp: is_word_def list_all_iff is_digit_not_space)

section \<open>Floating point\<close>

datatype pyfloat = Fin rat | Infinite | NotANumber

definition lower :: "char \<Rightarrow> char" where
  "lower c = (let n = (of_char c :: nat) in if 65 \<le> n \<and> n \<le> 90 then char_of (n + 32) else c)"

definition digit_count :: "string \<Rightarrow> nat" where
  "digit_count s = length (filter is_digit s)"

definition mantissa :: "string \<Rightarrow> rat option" where
  "mantissa t = (case split_once (CHR ''.'') t of
       [a] \<Rightarrow> if digit_part a then Some (of_nat (digits_val 0 a)) else None
     | [a, b] \<Rightarrow>
         if digit_part a \<and> (b = [] \<or> digit_part b) \<or> a = [] \<and> digit_part b
         then Some (of_nat (digits_val 0 a) + of_nat (digits_val 0 b) / 10 ^ digit_count b)
         else None
     | _ \<Rightarrow> None)"

definition exponent :: "string \<Rightarrow> rat option" where
  "exponent t = (let (g, u) = sign_split t in
     if digit_part u
     then Some (if g = 1 then 10 ^ digits_val 0 u else 1 / 10 ^ digits_val 0 u) else None)"

definition float_of_str :: "string \<Rightarrow> exn + pyfloat" where
  "float_of_str s = (let (g, t) = sign_split (map lower (strip s)) in
     if t \<in> {''inf'', ''infinity''} then Inr Infinite
     else if t = ''nan'' then Inr NotANumber
     else (case split_once (CHR ''e'') t of
         [m] \<Rightarrow> (case mantissa m of None \<Rightarrow> Inl ValueError | Some q \<Rightarrow> Inr (Fin (of_int g * q)))
       | [m, x] \<Rightarrow> (case (mantissa m, exponent x) of
             (Some q, Some p) \<Rightarrow> Inr (Fin (of_int g * q * p)) | _ \<Rightarrow> Inl ValueError)
       | _ \<Rightarrow> Inl ValueError))"

lemma lower_digit: "is_digit c \<Longrightarrow> lower c = c"
  by (auto simp: is_digit_def lower_def Let_def)

lemma digit_neq: "is_digit c \<Longrightarrow> \<not> is_digit d \<Longrightarrow> c \<noteq> d"
  by auto

lemma float_of_str_of_nat [simp]: "float_of_str (str_of_nat n) = Inr (Fin (of_nat n))"
proof -
  let ?s = "str_of_nat n"
  have ds: "list_all is_digit ?s" by (rule str_of_nat_digits)
  then have lower: "map lower ?s = ?s" by (simp add: list_all_iff lower_digit map_idI)
  have e: "CHR ''e'' \<notin> set ?s" and dot: "CHR ''.'' \<notin> set ?s"
    using ds by (auto simp: list_all_iff is_digit_def)
  have inf: "?s \<notin> {''inf'', ''infinity''}" and nan: "?s \<noteq> ''nan''"
    using ds by (auto simp: is_digit_def)
  have "mantissa ?s = Some (of_nat n)"
    using ds dot by (simp add: mantissa_def split_once_no_sep digit_part_digits)
  then show ?thesis
    using ds lower inf nan e
    by (simp add: float_of_str_def strip_digits sign_split_digits split_once_no_sep)
qed

text \<open>\<open>int(f)\<close> rounds towards zero.\<close>

definition trunc :: "rat \<Rightarrow> int" where
  "trunc q = (if q < 0 then \<lceil>q\<rceil> else \<lfloor>q\<rfloor>)"

definition int_of_float :: "pyfloat \<Rightarrow> exn + int" where
  "int_of_float f = (case f of
       Fin q \<Rightarrow> Inr (trunc q) | Infinite \<Rightarrow> Inl OverflowError | NotANumber \<Rightarrow> Inl ValueError)"

definition float_add :: "pyfloat \<Rightarrow> rat \<Rightarrow> pyfloat" where
  "float_add f r = (case f of Fin q \<Rightarrow> Fin (q + r) | g \<Rightarrow> g)"

definition float_mult :: "pyfloat \<Rightarrow> rat \<Rightarrow> pyfloat" where
  "float_mult f r = (case f of Fin q \<Rightarrow> Fin (q * r) | g \<Rightarrow> g)"

text \<open>
  \<open>str(f)\<close> of a non-negative number with three decimals at most and below \<open>10 ^ 12\<close>: the
  integer part, a point, and the decimals without their trailing zeros, at least one.
\<close>

definition pad3 :: "nat \<Rightarrow> string" where
  "pad3 n = [char_of (n div 100 mod 10 + 48), char_of (n div 10 mod 10 + 48), char_of (n mod 10 + 48)]"

definition str_of_float :: "rat \<Rightarrow> string" where
  "str_of_float q = (let k = nat \<lfloor>q * 1000\<rfloor>;
       ds = rev (dropWhile (\<lambda>c. c = CHR ''0'') (rev (pad3 (k mod 1000))))
     in str_of_nat (k div 1000) @ ''.'' @ (if ds = [] then ''0'' else ds))"

lemma trunc_nonneg: "0 \<le> q \<Longrightarrow> trunc q = \<lfloor>q\<rfloor>"
  by (simp add: trunc_def)

lemma trunc_of_int [simp]: "trunc (of_int i) = i"
  by (simp add: trunc_def)

lemma trunc_bounds: "0 \<le> q \<Longrightarrow> of_int (trunc q) \<le> q \<and> q < of_int (trunc q) + 1"
  using floor_correct [of q] by (simp add: trunc_def)

lemma trunc_mono:
  assumes "x \<le> y"
  shows "trunc x \<le> trunc y"
proof (cases "x < 0 \<and> \<not> y < 0")
  case True
  then have "\<lceil>x\<rceil> \<le> 0" and "0 \<le> \<lfloor>y\<rfloor>" by simp_all
  then have "\<lceil>x\<rceil> \<le> \<lfloor>y\<rfloor>" by (rule order_trans)
  with True show ?thesis by (simp add: trunc_def)
next
  case False
  with assms ceiling_mono [of x y] floor_mono [of x y] show ?thesis by (auto simp: trunc_def)
qed

lemma trunc_add_1: "trunc (q + 1) \<le> trunc q + 1"
  using floor_le_ceiling [of q] by (auto simp: trunc_def)

lemma int_of_float_Fin [simp]: "int_of_float (Fin q) = Inr (trunc q)"
  by (simp add: int_of_float_def)

section \<open>Numbers of either type\<close>

datatype pynum = PyInt int | PyFloat rat

definition str_of_num :: "pynum \<Rightarrow> string" where
  "str_of_num n = (case n of PyInt i \<Rightarrow> str_of_int i | PyFloat q \<Rightarrow> str_of_float q)"

lemma str_of_int_nat [simp]: "str_of_int (int n) = str_of_nat n"
  by (simp add: str_of_int_def)

lemma int_of_str_of_int: "0 \<le> i \<Longrightarrow> int_of_str (str_of_int i) = Inr i"
  by (simp add: str_of_int_def)

end
