(* ===== verification/OsModel.thy ===== *)
theory OsModel
  imports PyText
begin

text \<open>
  The operating system as the installer sees it. Everything the program does outside its
  own memory is an \<open>event\<close>; a run appends its events, in order, to the trace. What comes back
  (return codes, output, file contents, keyboard input) is the environment's choice: a
  record of functions of the events so far, so a theorem over all environments covers every
  behaviour of the programs, files and users the installer talks to.
\<close>

named_theorems logs_rules \<open>the events an operation appends: one rule per operation\<close>

section \<open>Events, environment, state\<close>

datatype event =
    Call "string list"                 \<comment> \<open>\<open>subprocess.call(argv)\<close>\<close>
  | CallTo "string list" string        \<comment> \<open>\<open>subprocess.call(argv, stdout=f)\<close>\<close>
  | CallEnv "string list" string string \<comment> \<open>\<open>subprocess.call(argv, env=...)\<close>, one variable set\<close>
  | Shell string                       \<comment> \<open>\<open>subprocess.call([s], shell=True)\<close>\<close>
  | Popen "string list"                \<comment> \<open>\<open>Popen(argv, stdout=PIPE).communicate()\<close>\<close>
  | OpenR string
  | OpenW string
  | WriteF string string               \<comment> \<open>\<open>f.write(data)\<close>, into the buffer of the open file\<close>
  | CloseF string
  | Out string                         \<comment> \<open>\<open>print\<close> and \<open>sys.stdout.write\<close>\<close>
  | Input string "string option"       \<comment> \<open>\<open>input(prompt)\<close>, the text the startup hook inserts\<close>
  | Readline                           \<comment> \<open>\<open>sys.stdin.readline()\<close>\<close>
  | Exists string                      \<comment> \<open>\<open>os.path.exists\<close>\<close>
  | Access string                      \<comment> \<open>\<open>os.access\<close>\<close>
  | StatF string                       \<comment> \<open>\<open>os.stat\<close>\<close>
  | Chmod string int
  | Rename string string
  | Sleep int

type_synonym history = "event list"

text \<open>
  \<open>text_pipes\<close>: whether the pipes of \<open>Popen\<close> carry \<open>str\<close> (as the code that splits their
  output needs) or \<open>bytes\<close> (the default of Python 3). \<open>stack_left\<close>: the recursive calls the
  interpreter still allows before it raises \<open>RecursionError\<close>. \<open>exn_str\<close>, \<open>format_tb\<close>: the
  message of one of Python's own exceptions, and the text of a traceback.
\<close>

record env =
  run :: "history \<Rightarrow> string list \<Rightarrow> exn + (int \<times> string \<times> string)"
  run_shell :: "history \<Rightarrow> string \<Rightarrow> int"
  read_file :: "history \<Rightarrow> string \<Rightarrow> exn + string"
  fs_op :: "history \<Rightarrow> event \<Rightarrow> exn option"
  probe :: "history \<Rightarrow> event \<Rightarrow> bool"
  typed :: "history \<Rightarrow> exn + string"
  text_pipes :: bool
  efi_system :: bool
  stack_left :: nat
  exn_str :: "exn \<Rightarrow> string"
  format_tb :: "history \<Rightarrow> string"

record mount_info =
  mdev :: string
  mtype :: string
  mopts :: "string option"

text \<open>
  The installer's own state. A dictionary is the list of its items in insertion order. \<open>hook\<close> is
  the value of the \<open>ReadlineDefVal\<close> object that is \<open>readline\<close>'s startup hook, if there is one;
  \<open>trace\<close> is the list of events so far.
\<close>

type_synonym mount_table = "(string \<times> mount_info) list"

record world =
  mounts :: mount_table
  installed :: bool
  alldevs :: "string list"
  hook :: "string option"
  trace :: "event list"

type_synonym 'a os = "(env, world, 'a) comp"

section \<open>Dictionaries\<close>

fun dict_get :: "('k \<times> 'v) list \<Rightarrow> 'k \<Rightarrow> 'v option" where
  "dict_get [] k = None"
| "dict_get ((k', v) # d) k = (if k' = k then Some v else dict_get d k)"

fun dict_set :: "('k \<times> 'v) list \<Rightarrow> 'k \<Rightarrow> 'v \<Rightarrow> ('k \<times> 'v) list" where
  "dict_set [] k v = [(k, v)]"
| "dict_set ((k', v') # d) k v = (if k' = k then (k', v) # d else (k', v') # dict_set d k v)"

definition dict_keys :: "('k \<times> 'v) list \<Rightarrow> 'k list" where
  "dict_keys d = map fst d"

definition dict_item :: "('k \<times> 'v) list \<Rightarrow> 'k \<Rightarrow> exn + 'v" where
  "dict_item d k = (case dict_get d k of None \<Rightarrow> Inl KeyError | Some v \<Rightarrow> Inr v)"

section \<open>Primitive operations\<close>

definition emit :: "event \<Rightarrow> world \<Rightarrow> world" where
  "emit e w = w\<lparr>trace := trace w @ [e]\<rparr>"

definition act :: "event \<Rightarrow> unit os" where
  "act e = (\<lambda>E w. Some (Inr (), emit e w))"

text \<open>An operation that reports an event and takes its result from the environment.\<close>

definition query :: "event \<Rightarrow> (env \<Rightarrow> history \<Rightarrow> exn + 'a) \<Rightarrow> 'a os" where
  "query e f = (\<lambda>E w. Some (f E (trace w), emit e w))"

definition print :: "string \<Rightarrow> unit os" where
  "print s = act (Out (s @ [NL]))"

definition write_out :: "string \<Rightarrow> unit os" where
  "write_out s = act (Out s)"

definition call :: "string list \<Rightarrow> int os" where
  "call argv = query (Call argv) (\<lambda>E h. case run E h argv of Inl e \<Rightarrow> Inl e | Inr (rc, _) \<Rightarrow> Inr rc)"

definition call_to :: "string list \<Rightarrow> string \<Rightarrow> int os" where
  "call_to argv f =
     query (CallTo argv f) (\<lambda>E h. case run E h argv of Inl e \<Rightarrow> Inl e | Inr (rc, _) \<Rightarrow> Inr rc)"

definition call_env :: "string list \<Rightarrow> string \<Rightarrow> string \<Rightarrow> int os" where
  "call_env argv x v =
     query (CallEnv argv x v) (\<lambda>E h. case run E h argv of Inl e \<Rightarrow> Inl e | Inr (rc, _) \<Rightarrow> Inr rc)"

definition callu :: "string list \<Rightarrow> unit os" where
  "callu argv = bnd (call argv) (\<lambda>_. skip)"

definition shell :: "string \<Rightarrow> int os" where
  "shell s = query (Shell s) (\<lambda>E h. Inr (run_shell E h s))"

definition pipe_data :: "env \<Rightarrow> string \<Rightarrow> pydata" where
  "pipe_data E s = (if text_pipes E then Str s else Bytes s)"

definition popen :: "string list \<Rightarrow> (int \<times> pydata \<times> pydata) os" where
  "popen argv = query (Popen argv) (\<lambda>E h. case run E h argv of
       Inl e \<Rightarrow> Inl e | Inr (rc, out, err) \<Rightarrow> Inr (rc, pipe_data E out, pipe_data E err))"

definition open_read :: "string \<Rightarrow> string os" where
  "open_read f = query (OpenR f) (\<lambda>E h. read_file E h f)"

definition fs_action :: "event \<Rightarrow> unit os" where
  "fs_action e = query e (\<lambda>E h. case fs_op E h e of None \<Rightarrow> Inr () | Some x \<Rightarrow> Inl x)"

definition test :: "event \<Rightarrow> bool os" where
  "test e = query e (\<lambda>E h. Inr (probe E h e))"

definition read_input :: "string \<Rightarrow> string os" where
  "read_input prompt = (\<lambda>E w. Some (typed E (trace w), emit (Input prompt (hook w)) w))"

text \<open>
  \<open>readline.set_startup_hook(x.hook)\<close> and \<open>x.setvalue(v)\<close> with \<open>x\<close> a \<open>ReadlineDefVal\<close>: from
  then on \<open>input\<close> starts with this text.
\<close>

definition set_hook :: "string option \<Rightarrow> unit os" where
  "set_hook v = modify_st (\<lambda>w. w\<lparr>hook := v\<rparr>)"

definition read_stdin_line :: "string os" where
  "read_stdin_line = query Readline (\<lambda>E h. typed E h)"

section \<open>Data from pipes\<close>

text \<open>\<open>str\<close> operations with a \<open>str\<close> argument raise \<open>TypeError\<close> on \<open>bytes\<close>.\<close>

definition text_of :: "pydata \<Rightarrow> exn + string" where
  "text_of d = (case d of Str s \<Rightarrow> Inr s | Bytes _ \<Rightarrow> Inl TypeError)"

definition data_true :: "pydata \<Rightarrow> bool" where
  "data_true d = (case d of Str s \<Rightarrow> s \<noteq> [] | Bytes s \<Rightarrow> s \<noteq> [])"

definition data_repr :: "pydata \<Rightarrow> string" where
  "data_repr d = (case d of Str s \<Rightarrow> s | Bytes s \<Rightarrow> ''b'' @ [CHR 0x27] @ s @ [CHR 0x27])"

text \<open>\<open>out.split(c)\<close> of the output of a command\<close>

definition pipe_split :: "char \<Rightarrow> pydata \<Rightarrow> (string list) os" where
  "pipe_split c d = lift_res (case text_of d of Inl e \<Rightarrow> Inl e | Inr s \<Rightarrow> Inr (split_on c s))"

lemma pipe_split_app [comp_simps]:
  "pipe_split c d E w = Some (case text_of d of Inl e \<Rightarrow> Inl e | Inr s \<Rightarrow> Inr (split_on c s), w)"
  by (simp add: pipe_split_def lift_res_app)

lemma text_of_simps [simp]: "text_of (Str s) = Inr s" "text_of (Bytes s) = Inl TypeError"
  by (simp_all add: text_of_def)

lemma pipe_data_text [simp]: "text_pipes E \<Longrightarrow> pipe_data E s = Str s"
  by (simp add: pipe_data_def)

lemma pipe_data_bytes [simp]: "\<not> text_pipes E \<Longrightarrow> pipe_data E s = Bytes s"
  by (simp add: pipe_data_def)

section \<open>One step of a primitive operation\<close>

lemma emit_simps [simp]:
  "mounts (emit e w) = mounts w" "installed (emit e w) = installed w"
  "alldevs (emit e w) = alldevs w" "hook (emit e w) = hook w" "trace (emit e w) = trace w @ [e]"
  by (simp_all add: emit_def)

lemma act_app [comp_simps]: "act e E w = Some (Inr (), emit e w)"
  by (simp add: act_def)

lemma query_app [comp_simps]: "query e f E w = Some (f E (trace w), emit e w)"
  by (simp add: query_def)

lemmas prim_defs = print_def write_out_def call_def call_to_def call_env_def callu_def shell_def
  popen_def open_read_def fs_action_def test_def read_input_def read_stdin_line_def

lemma returns_prim [returns_rules]:
  "returns (act e)" "returns (query e f)" "returns (print s)" "returns (write_out s)"
  "returns (call argv)" "returns (callu argv)" "returns (call_to argv f')" "returns (call_env argv x v)"
  "returns (shell s)" "returns (popen argv)" "returns (open_read s)" "returns (fs_action e)"
  "returns (test e)" "returns (read_input s)" "returns (set_hook hk)" "returns read_stdin_line" "returns (pipe_split c d)"
  by (simp_all add: prim_defs set_hook_def pipe_split_def returns_def comp_simps split: sum.splits)

text \<open>
  An environment in which every program can be started; whether it then succeeds is open.
\<close>

definition starts_all :: "env \<Rightarrow> bool" where
  "starts_all E \<longleftrightarrow> (\<forall>h argv e. run E h argv \<noteq> Inl e)"

lemma completes_prim [completes_rules]:
  "completes E (act e)" "completes E (print s)" "completes E (write_out s)"
  "completes E (shell s)" "completes E (test e)"
  by (simp_all add: prim_defs completes_def comp_simps)

lemma completes_run [completes_rules]:
  assumes "starts_all E"
  shows "completes E (call argv)" and "completes E (callu argv)" and "completes E (call_to argv f)"
    and "completes E (popen argv)"
proof -
  have *: "\<exists>rc out err. run E h argv = Inr (rc, out, err)" for h
    using assms by (cases "run E h argv") (auto simp: starts_all_def)
  show "completes E (call argv)" "completes E (call_to argv f)" "completes E (popen argv)"
    using * by (auto simp: prim_defs completes_def query_app split: sum.splits)
      (metis Inl_Inr_False)+
  then show "completes E (callu argv)"
    unfolding callu_def by (intro completes_rules)
qed

section \<open>Operations with a fixed log\<close>

text \<open>
  When the operation returns a value it has appended exactly \<open>es\<close> to the trace and changed
  nothing else.
\<close>

definition logs :: "'a os \<Rightarrow> event list \<Rightarrow> bool" where
  "logs m es \<longleftrightarrow>
     (\<forall>E w x w'. m E w = Some (Inr x, w') \<longrightarrow> w' = w\<lparr>trace := trace w @ es\<rparr>)"

lemma logsI: "(\<And>E w x w'. m E w = Some (Inr x, w') \<Longrightarrow> w' = w\<lparr>trace := trace w @ es\<rparr>) \<Longrightarrow> logs m es"
  unfolding logs_def by blast

lemma logsD: "logs m es \<Longrightarrow> m E w = Some (Inr x, w') \<Longrightarrow> w' = w\<lparr>trace := trace w @ es\<rparr>"
  unfolding logs_def by blast

lemma logs_skip [logs_rules]: "logs skip []"
  by (rule logsI) (simp add: comp_simps)

lemma logs_ret [logs_rules]: "logs (ret x) []"
  by (rule logsI) (simp add: comp_simps)

lemma logs_raise: "logs (raise e) es"
  by (rule logsI) (simp add: comp_simps)

lemma logs_act [logs_rules]: "logs (act e) [e]"
  by (rule logsI) (auto simp: comp_simps emit_def)

lemma logs_query [logs_rules]: "logs (query e f) [e]"
  by (rule logsI) (auto simp: comp_simps emit_def)

lemma logs_bnd:
  assumes m: "logs m es" and f: "\<And>x. logs (f x) fs"
  shows "logs (bnd m f) (es @ fs)"
proof (rule logsI)
  fix E w y w'
  assume "bnd m f E w = Some (Inr y, w')"
  then obtain x w1 where "m E w = Some (Inr x, w1)" and k: "f x E w1 = Some (Inr y, w')"
    by (rule bnd_InrE)
  then have "w1 = w\<lparr>trace := trace w @ es\<rparr>" using m by (auto dest: logsD)
  with logsD [OF f k] show "w' = w\<lparr>trace := trace w @ es @ fs\<rparr>" by simp
qed

lemma logs_andthen [logs_rules]: "logs m es \<Longrightarrow> logs k fs \<Longrightarrow> logs (andthen m k) (es @ fs)"
  by (simp add: andthen_def logs_bnd)

lemma logs_lift_bnd: "(\<And>x. r = Inr x \<Longrightarrow> logs (f x) es) \<Longrightarrow> logs (bnd (lift_res r) f) es"
  by (cases r) (auto simp: logs_def comp_simps)

lemma logs_for_each:
  "(\<And>x. x \<in> set xs \<Longrightarrow> logs (f x) (es x)) \<Longrightarrow> logs (for_each xs f) (concat (map es xs))"
  by (induction xs) (simp_all add: logs_rules)

lemma logs_block_Nil [logs_rules]: "logs (block []) []"
  by (simp add: logs_skip)

lemma logs_block_Cons [logs_rules]: "logs m es \<Longrightarrow> logs (block ms) fs \<Longrightarrow> logs (block (m # ms)) (es @ fs)"
  by (simp add: logs_andthen)

lemma logs_prim [logs_rules]:
  "logs (print s) [Out (s @ [NL])]" "logs (write_out s) [Out s]" "logs (call argv) [Call argv]"
  "logs (shell s) [Shell s]" "logs (popen argv) [Popen argv]" "logs (call_to argv f) [CallTo argv f]"
  "logs (open_read f) [OpenR f]" "logs (fs_action e) [e]" "logs (test e) [e]"
  by (simp_all add: prim_defs logs_rules)

lemma logs_callu [logs_rules]: "logs (callu argv) [Call argv]"
  using logs_bnd [OF logs_prim(3) logs_skip, of argv] by (simp add: callu_def)

section \<open>The contract of the effects\<close>

text \<open>
  A predicate of the environment and the state that every event satisfying \<open>ok\<close> keeps. The
  primitive operations keep it when their event is such; the components prove the same of
  their operations in this locale and in the ones that extend it.
\<close>

locale effect_contract =
  fixes ok :: "event \<Rightarrow> bool" and P :: "env \<Rightarrow> world \<Rightarrow> bool"
  assumes emit_keeps: "ok e \<Longrightarrow> P E w \<Longrightarrow> P E (emit e w)"
begin

lemma keeps_act [keeps_rules]: "ok e \<Longrightarrow> keeps P (act e)"
  by (rule keepsI) (auto simp: act_app emit_keeps)

lemma keeps_query: "ok e \<Longrightarrow> keeps P (query e f)"
  by (rule keepsI) (auto simp: query_app emit_keeps)

lemma keeps_print [keeps_rules]: "ok (Out (s @ [NL])) \<Longrightarrow> keeps P (print s)"
  by (simp add: print_def keeps_act)

lemma keeps_write_out [keeps_rules]: "ok (Out s) \<Longrightarrow> keeps P (write_out s)"
  by (simp add: write_out_def keeps_act)

lemma keeps_call [keeps_rules]: "ok (Call argv) \<Longrightarrow> keeps P (call argv)"
  by (simp add: call_def keeps_query)

lemma keeps_callu [keeps_rules]: "ok (Call argv) \<Longrightarrow> keeps P (callu argv)"
  unfolding callu_def by (intro keeps_rules)

lemma keeps_call_to [keeps_rules]: "ok (CallTo argv f) \<Longrightarrow> keeps P (call_to argv f)"
  by (simp add: call_to_def keeps_query)

lemma keeps_call_env [keeps_rules]: "ok (CallEnv argv x v) \<Longrightarrow> keeps P (call_env argv x v)"
  by (simp add: call_env_def keeps_query)

lemma keeps_shell [keeps_rules]: "ok (Shell s) \<Longrightarrow> keeps P (shell s)"
  by (simp add: shell_def keeps_query)

lemma keeps_popen [keeps_rules]: "ok (Popen argv) \<Longrightarrow> keeps P (popen argv)"
  by (simp add: popen_def keeps_query)

lemma keeps_open_read [keeps_rules]: "ok (OpenR f) \<Longrightarrow> keeps P (open_read f)"
  by (simp add: open_read_def keeps_query)

lemma keeps_fs_action [keeps_rules]: "ok e \<Longrightarrow> keeps P (fs_action e)"
  by (simp add: fs_action_def keeps_query)

lemma keeps_test [keeps_rules]: "ok e \<Longrightarrow> keeps P (test e)"
  by (simp add: test_def keeps_query)

lemma keeps_read_input [keeps_rules]: "(\<And>v. ok (Input s v)) \<Longrightarrow> keeps P (read_input s)"
  by (rule keepsI) (auto simp: read_input_def emit_keeps)

lemma keeps_read_stdin_line [keeps_rules]: "ok Readline \<Longrightarrow> keeps P read_stdin_line"
  by (simp add: read_stdin_line_def keeps_query)

lemma keeps_pipe_split [keeps_rules]: "keeps P (pipe_split c d)"
  by (simp add: pipe_split_def keeps_rules)

end

section \<open>Events that reformat a device\<close>

text \<open>
  The commands by which the installer writes a partition table, a filesystem, a swap area or
  RAID or LVM metadata, or lets another program do it (\<open>mvpartition\<close>).
\<close>

fun reformats :: "event \<Rightarrow> bool" where
  "reformats (Call argv) = (case argv of [] \<Rightarrow> False | p # _ \<Rightarrow>
     p \<in> {''mvpartition'', ''pvcreate'', ''mkswap''} \<or> startswith p ''mkfs.'')"
| "reformats (Popen argv) = (case argv of [] \<Rightarrow> False | p # args \<Rightarrow>
     p \<in> {''parted'', ''vgremove'', ''vgcreate'', ''lvcreate''} \<or>
     p = ''mdadm'' \<and> (''--create'' \<in> set args \<or> ''--zero-superblock'' \<in> set args))"
| "reformats _ = False"

text \<open>A contract whose events include all those that reformat nothing.\<close>

locale harmless_contract = effect_contract +
  assumes harmless_ok: "\<not> reformats e \<Longrightarrow> ok e"

text \<open>One that also keeps its predicate when the installer updates its own fields.\<close>

locale field_contract = harmless_contract +
  assumes set_installed: "P E w \<Longrightarrow> P E (w\<lparr>installed := True\<rparr>)"
    and set_alldevs: "P E w \<Longrightarrow> P E (w\<lparr>alldevs := ds\<rparr>)"
    and set_hook_ok: "P E w \<Longrightarrow> P E (w\<lparr>hook := v\<rparr>)"
begin

lemma keeps_set_hook [keeps_rules]: "keeps P (set_hook v)"
  unfolding set_hook_def by (intro keeps_modify_st set_hook_ok)

end

section \<open>Runs that only perform some events\<close>

text \<open>
  Since \<open>w0\<close>, only events that satisfy \<open>ok\<close> have happened; \<open>only\<close> says besides that the
  installer's own fields are those of \<open>w0\<close>.
\<close>

definition since :: "(event \<Rightarrow> bool) \<Rightarrow> world \<Rightarrow> env \<Rightarrow> world \<Rightarrow> bool" where
  "since ok w0 E w \<longleftrightarrow> (\<exists>es. trace w = trace w0 @ es \<and> (\<forall>e\<in>set es. ok e))"

definition only :: "(event \<Rightarrow> bool) \<Rightarrow> world \<Rightarrow> env \<Rightarrow> world \<Rightarrow> bool" where
  "only ok w0 E w \<longleftrightarrow> since ok w0 E w \<and> mounts w = mounts w0 \<and> installed w = installed w0
     \<and> alldevs w = alldevs w0 \<and> hook w = hook w0"

lemma since_refl [simp]: "since ok w E w"
  by (simp add: since_def)

lemma only_refl [simp]: "only ok w E w"
  by (simp add: only_def)

lemma since_emit: "ok e \<Longrightarrow> since ok w0 E w \<Longrightarrow> since ok w0 E (emit e w)"
  unfolding since_def by (elim exE conjE, rule_tac x = "es @ [e]" in exI) auto

interpretation only: effect_contract ok "only ok w0" for ok w0
  by unfold_locales (auto simp: only_def since_emit)

interpretation since: effect_contract ok "since ok w0" for ok w0
  by unfold_locales (rule since_emit)

section \<open>Steps that reformat nothing\<close>

text \<open>From \<open>w\<close> to \<open>w'\<close> only events that reformat no device have been added to the trace.\<close>

definition quiet :: "world \<Rightarrow> world \<Rightarrow> bool" where
  "quiet w w' \<longleftrightarrow> (\<exists>es. w' = w\<lparr>trace := trace w @ es\<rparr> \<and> (\<forall>e\<in>set es. \<not> reformats e))"

lemma quiet_refl: "quiet w w"
  unfolding quiet_def by (rule exI [of _ "[]"]) simp

lemma quiet_emit: "quiet w w' \<Longrightarrow> \<not> reformats e \<Longrightarrow> quiet w (emit e w')"
  unfolding quiet_def emit_def
  by (elim exE conjE, rule_tac x = "es @ [e]" in exI) auto

lemma quiet_fields:
  "quiet w w' \<Longrightarrow> mounts w' = mounts w \<and> installed w' = installed w \<and> alldevs w' = alldevs w
     \<and> hook w' = hook w"
  by (auto simp: quiet_def)

lemma emit_update [simp]:
  "(emit e w)\<lparr>mounts := m\<rparr> = emit e (w\<lparr>mounts := m\<rparr>)"
  "(emit e w)\<lparr>installed := b\<rparr> = emit e (w\<lparr>installed := b\<rparr>)"
  "(emit e w)\<lparr>alldevs := ds\<rparr> = emit e (w\<lparr>alldevs := ds\<rparr>)"
  "(emit e w)\<lparr>hook := v\<rparr> = emit e (w\<lparr>hook := v\<rparr>)"
  by (simp_all add: emit_def)

context harmless_contract
begin

lemma keeps_quiet: "quiet w w' \<Longrightarrow> P E w \<Longrightarrow> P E w'"
proof -
  have "(\<forall>e\<in>set es. \<not> reformats e) \<Longrightarrow> P E w \<Longrightarrow> P E (w\<lparr>trace := trace w @ es\<rparr>)" for es
  proof (induction es rule: rev_induct)
    case (snoc e es)
    then have "P E (emit e (w\<lparr>trace := trace w @ es\<rparr>))"
      by (intro emit_keeps harmless_ok) auto
    then show ?case by (simp add: emit_def)
  qed simp
  moreover assume "quiet w w'" and "P E w"
  ultimately show ?thesis by (auto simp: quiet_def)
qed

end

section \<open>A concrete environment\<close>

text \<open>
  Every program succeeds and prints nothing, no file can be read, every probe fails and the
  keyboard is at its end. The witnesses change the answers they need.
\<close>

definition plain_env :: env where
  "plain_env = \<lparr>run = (\<lambda>_ _. Inr (0, [], [])), run_shell = (\<lambda>_ _. 0),
     read_file = (\<lambda>_ _. Inl OSError), fs_op = (\<lambda>_ _. None), probe = (\<lambda>_ _. False),
     typed = (\<lambda>_. Inl EOFError), text_pipes = True, efi_system = False, stack_left = 900,
     exn_str = (\<lambda>_. []), format_tb = (\<lambda>_. [])\<rparr>"

definition start_world :: world where
  "start_world = \<lparr>mounts = [], installed = False, alldevs = [], hook = None, trace = []\<rparr>"

end
