(* ===== verification/Commands.thy ===== *)
theory Commands
  imports OsModel
begin

text \<open>
  The helpers of \<open>installer.py\<close> that run a program and check its return code:
  \<open>_call_cmd\<close>, \<open>_call_parted\<close>, \<open>_call_mdadm\<close>, \<open>_call_lvmcmd\<close>, \<open>_call_lvmdispcmd\<close>, and
  the text of a \<open>CmdErr\<close>.
\<close>

section \<open>A command line as text\<close>

text \<open>
  \<open>CmdErr\<close> stores \<open>str(cmd)\<close>, where \<open>cmd\<close> is a tuple or a list of strings, so the display
  of the sequence with every element in quotes.
\<close>

datatype cmdline = TupleC "string list" | ListC "string list"

fun cmd_args :: "cmdline \<Rightarrow> string list" where
  "cmd_args (TupleC a) = a"
| "cmd_args (ListC a) = a"

fun repr_char :: "char \<Rightarrow> char \<Rightarrow> string" where
  "repr_char q c =
     (if c = CHR 0x5C then [CHR 0x5C, CHR 0x5C]
      else if c = q then [CHR 0x5C, q]
      else if c = NL then [CHR 0x5C, CHR ''n'']
      else if c = TAB then [CHR 0x5C, CHR ''t'']
      else if c = CHR 0x0D then [CHR 0x5C, CHR ''r'']
      else [c])"

definition repr_str :: "string \<Rightarrow> string" where
  "repr_str s =
     (let q = (if CHR 0x27 \<in> set s \<and> CHR 0x22 \<notin> set s then CHR 0x22 else CHR 0x27)
      in [q] @ concat (map (repr_char q) s) @ [q])"

fun str_cmd :: "cmdline \<Rightarrow> string" where
  "str_cmd (TupleC [a]) = ''('' @ repr_str a @ '',)''"
| "str_cmd (TupleC a) = ''('' @ join '', '' (map repr_str a) @ '')''"
| "str_cmd (ListC a) = ''['' @ join '', '' (map repr_str a) @ '']''"

text \<open>\<open>CmdErr.__str__\<close>\<close>

definition cmderr_str :: "string \<Rightarrow> int \<Rightarrow> pydata \<Rightarrow> pydata \<Rightarrow> string" where
  "cmderr_str cmd rc out err =
     ''Error '' @ str_of_int rc @ '':'' @ cmd @ [NL] @ data_repr out @ [NL] @ data_repr err"

section \<open>The helpers\<close>

definition call_cmd :: "cmdline \<Rightarrow> bool \<Rightarrow> pydata os" where
  "call_cmd cmd ignerr =
     bnd (popen (cmd_args cmd)) (\<lambda>(rc, out, err).
       if \<not> ignerr \<and> rc \<noteq> 0 then raise (CmdErr (str_cmd cmd) rc out err) else ret out)"

definition call_parted :: "string \<Rightarrow> string list \<Rightarrow> pydata os" where
  "call_parted device cmds =
     (let cmd = [''parted'', ''-ms'', ''--align=opt'', ''--'', device] @ cmds in
      bnd (popen cmd) (\<lambda>(rc, out, err).
        if rc \<noteq> 0 then raise (CmdErr (str_cmd (ListC cmd)) rc out err) else ret out))"

definition call_mdadm :: "string \<Rightarrow> string \<Rightarrow> string list \<Rightarrow> bool \<Rightarrow> pydata os" where
  "call_mdadm device cmd opts ignerr = call_cmd (ListC ([''mdadm'', cmd, device] @ opts)) ignerr"

definition call_lvmcmd :: "string \<Rightarrow> string list \<Rightarrow> pydata os" where
  "call_lvmcmd prog opts =
     (let cmd = [prog] @ opts in
      bnd (popen cmd) (\<lambda>(rc, out, err).
        if rc \<noteq> 0 then raise (CmdErr (str_cmd (ListC cmd)) rc out err) else ret out))"

definition call_lvmdispcmd :: "string \<Rightarrow> string list \<Rightarrow> pydata os" where
  "call_lvmdispcmd prog opts = call_lvmcmd prog ([''--noheadings'', ''--nosuffix''] @ opts)"

definition ignore :: "'a os \<Rightarrow> unit os" where
  "ignore m = bnd m (\<lambda>_. skip)"

lemma keeps_ignore [keeps_rules]: "keeps P m \<Longrightarrow> keeps P (ignore m)"
  unfolding ignore_def by (intro keeps_rules)

section \<open>Their runs\<close>

text \<open>
  The result of running a program through a helper, as a function of what the environment
  answers.
\<close>

lemma popen_app:
  "popen argv E w = Some (case run E (trace w) argv of Inl e \<Rightarrow> Inl e
     | Inr (rc, out, err) \<Rightarrow> Inr (rc, pipe_data E out, pipe_data E err), emit (Popen argv) w)"
  by (simp add: popen_def query_app)

lemma call_cmd_app:
  "call_cmd cmd ignerr E w = Some (case run E (trace w) (cmd_args cmd) of Inl e \<Rightarrow> Inl e
     | Inr (rc, out, err) \<Rightarrow>
         if \<not> ignerr \<and> rc \<noteq> 0
         then Inl (CmdErr (str_cmd cmd) rc (pipe_data E out) (pipe_data E err))
         else Inr (pipe_data E out), emit (Popen (cmd_args cmd)) w)"
  by (auto simp: call_cmd_def comp_simps popen_app split: sum.splits prod.splits)

lemma call_parted_app:
  "call_parted device cmds E w =
     (let cmd = [''parted'', ''-ms'', ''--align=opt'', ''--'', device] @ cmds in
      Some (case run E (trace w) cmd of Inl e \<Rightarrow> Inl e
        | Inr (rc, out, err) \<Rightarrow>
            if rc \<noteq> 0 then Inl (CmdErr (str_cmd (ListC cmd)) rc (pipe_data E out) (pipe_data E err))
            else Inr (pipe_data E out), emit (Popen cmd) w))"
  by (auto simp: call_parted_def comp_simps popen_app Let_def split: sum.splits prod.splits)

lemma call_lvmcmd_app:
  "call_lvmcmd prog opts E w =
     (let cmd = prog # opts in
      Some (case run E (trace w) cmd of Inl e \<Rightarrow> Inl e
        | Inr (rc, out, err) \<Rightarrow>
            if rc \<noteq> 0 then Inl (CmdErr (str_cmd (ListC cmd)) rc (pipe_data E out) (pipe_data E err))
            else Inr (pipe_data E out), emit (Popen cmd) w))"
  by (auto simp: call_lvmcmd_def comp_simps popen_app Let_def split: sum.splits prod.splits)

text \<open>A list-taking helper and \<open>_call_cmd\<close> with the same list do the same.\<close>

lemma call_parted_call_cmd:
  "call_parted device cmds =
     call_cmd (ListC ([''parted'', ''-ms'', ''--align=opt'', ''--'', device] @ cmds)) False"
  by (simp add: call_parted_def call_cmd_def Let_def)

lemma call_lvmcmd_call_cmd: "call_lvmcmd prog opts = call_cmd (ListC (prog # opts)) False"
  by (simp add: call_lvmcmd_def call_cmd_def Let_def)

lemma logs_ignore [logs_rules]: "logs m es \<Longrightarrow> logs (ignore m) es"
  using logs_bnd [OF _ logs_skip] by (simp add: ignore_def)

lemma logs_call_cmd [logs_rules]: "logs (call_cmd cmd ignerr) [Popen (cmd_args cmd)]"
  by (rule logsI) (auto simp: call_cmd_app emit_def split: sum.splits prod.splits if_splits)

lemma logs_call_lvmcmd [logs_rules]: "logs (call_lvmcmd prog opts) [Popen (prog # opts)]"
  using logs_call_cmd [of "ListC (prog # opts)"] by (simp add: call_lvmcmd_call_cmd)

lemma completes_ignore [completes_rules]: "completes E m \<Longrightarrow> completes E (ignore m)"
  unfolding ignore_def by (intro completes_rules)

lemma completes_call_cmd [completes_rules]: "starts_all E \<Longrightarrow> completes E (call_cmd cmd True)"
  unfolding call_cmd_def by (intro completes_rules) simp_all

lemma returns_ignore [returns_rules]: "returns m \<Longrightarrow> returns (ignore m)"
  unfolding ignore_def by (intro returns_rules)

lemma returns_call_cmd [returns_rules]: "returns (call_cmd cmd ignerr)"
  unfolding call_cmd_def by (intro returns_rules)

lemma returns_call_parted [returns_rules]: "returns (call_parted device cmds)"
  by (simp add: call_parted_call_cmd returns_call_cmd)

lemma returns_call_mdadm [returns_rules]: "returns (call_mdadm device cmd opts ignerr)"
  by (simp add: call_mdadm_def returns_call_cmd)

lemma returns_call_lvmcmd [returns_rules]: "returns (call_lvmcmd prog opts)"
  by (simp add: call_lvmcmd_call_cmd returns_call_cmd)

lemma returns_call_lvmdispcmd [returns_rules]: "returns (call_lvmdispcmd prog opts)"
  by (simp add: call_lvmdispcmd_def returns_call_lvmcmd)

context effect_contract
begin

lemma keeps_call_cmd [keeps_rules]: "ok (Popen (cmd_args cmd)) \<Longrightarrow> keeps P (call_cmd cmd ignerr)"
  unfolding call_cmd_def by (intro keeps_rules)

lemma keeps_call_parted [keeps_rules]:
  "ok (Popen ([''parted'', ''-ms'', ''--align=opt'', ''--'', device] @ cmds)) \<Longrightarrow>
     keeps P (call_parted device cmds)"
  by (simp add: call_parted_call_cmd keeps_call_cmd)

lemma keeps_call_mdadm [keeps_rules]:
  "ok (Popen ([''mdadm'', cmd, device] @ opts)) \<Longrightarrow> keeps P (call_mdadm device cmd opts ignerr)"
  by (simp add: call_mdadm_def keeps_call_cmd)

lemma keeps_call_lvmcmd [keeps_rules]:
  "ok (Popen (prog # opts)) \<Longrightarrow> keeps P (call_lvmcmd prog opts)"
  by (simp add: call_lvmcmd_call_cmd keeps_call_cmd)

lemma keeps_call_lvmdispcmd [keeps_rules]:
  "ok (Popen ([prog, ''--noheadings'', ''--nosuffix''] @ opts)) \<Longrightarrow>
     keeps P (call_lvmdispcmd prog opts)"
  by (simp add: call_lvmdispcmd_def keeps_call_lvmcmd)

end

end
