(* ===== verification/BaseDev.thy ===== *)
theory BaseDev
  imports Commands
begin

text \<open>
  \<open>uuid_to_dev\<close> and \<open>find_base_devices\<close> of \<open>installer.py\<close>: from a device to the disks it
  sits on. The recursion of \<open>find_base_devices\<close> is bounded by the interpreter's stack; its
  first argument is the number of calls left, and \<open>RecursionError\<close> what happens at zero.
\<close>

section \<open>The operations\<close>

definition uuid_to_dev :: "string \<Rightarrow> string os" where
  "uuid_to_dev uuid =
     bnd (popen [''blkid'', ''-t'', uuid]) (\<lambda>(rc, out, err).
       if rc \<noteq> 0 then
         andthen (print (''Error converting '' @ uuid @ '' to a device: '' @ data_repr err))
           (raise InstallerException)
       else
         bnd (lift_res (text_of out)) (\<lambda>t.
           bnd (lift_res (unpack2 (split_once (CHR '':'') t))) (\<lambda>(device, rest). ret device)))"

text \<open>The loop over \<open>/proc/mdstat\<close>: the member words of the first line of the array.\<close>

fun md_members :: "string \<Rightarrow> string list \<Rightarrow> string list" where
  "md_members base [] = []"
| "md_members base (l # ls) =
     (let w = words l in
      if length w < 5 then md_members base ls
      else if w ! 0 \<noteq> base then md_members base ls
      else drop 4 w)"

text \<open>The loop over the lines of \<open>pvs\<close>: the physical volumes of the group, in order.\<close>

fun vg_members :: "string \<Rightarrow> string list \<Rightarrow> string list" where
  "vg_members vgname [] = []"
| "vg_members vgname (l # ls) =
     (let w = words l in
      if length w < 2 then vg_members vgname ls
      else if w ! 1 \<noteq> vgname then vg_members vgname ls
      else w ! 0 # vg_members vgname ls)"

definition resolve_dev :: "string \<Rightarrow> string os" where
  "resolve_dev device =
     (if startswith device ''UUID='' then uuid_to_dev device
      else if \<not> startswith device ''/dev/'' then
        andthen (print (''Error: device '' @ device @ '' doesn'' @ [CHR 0x27] @ ''t start with /dev/''))
          (raise InstallerException)
      else ret device)"

definition md_step :: "(string \<Rightarrow> string list os) \<Rightarrow> string \<Rightarrow> string list \<Rightarrow> string list os" where
  "md_step rec d subdevs =
     bnd (lift_res (unpack2 (split_once (CHR ''['') d))) (\<lambda>(d, rest).
       bnd (rec (''/dev/'' @ d)) (\<lambda>ds. ret (subdevs @ ds)))"

definition vg_step :: "(string \<Rightarrow> string list os) \<Rightarrow> string \<Rightarrow> string list \<Rightarrow> string list os" where
  "vg_step rec d subdevs = bnd (rec d) (\<lambda>ds. ret (subdevs @ ds))"

definition mapper_devices :: "(string \<Rightarrow> string list os) \<Rightarrow> string \<Rightarrow> string list os" where
  "mapper_devices rec base =
     bnd (lift_res (unpack2 (split_once (CHR ''-'') (drop 7 base)))) (\<lambda>(vgname, lvname).
       bnd (popen [''pvs'', ''--noheadings'']) (\<lambda>(rc, out, err).
         if rc \<noteq> 0 then
           bnd (lift_res (text_of err)) (\<lambda>e.
             andthen (print (''Error: pvs command returned: '' @ e)) (raise InstallerException))
         else
           bnd (pipe_split NL out) (\<lambda>ls. fold_comp (vg_step rec) (vg_members vgname ls) [])))"

primrec find_base_devices :: "nat \<Rightarrow> string \<Rightarrow> string list os" where
  "find_base_devices 0 device = raise RecursionError"
| "find_base_devices (Suc n) device =
     bnd (resolve_dev device) (\<lambda>d.
       let base = drop 5 d in
       if startswith base ''md'' then
         bnd (open_read ''/proc/mdstat'') (\<lambda>txt.
           fold_comp (md_step (find_base_devices n)) (md_members base (file_lines txt)) [])
       else if startswith base ''mapper/'' then mapper_devices (find_base_devices n) base
       else if startswith base ''sd'' \<or> startswith base ''hd'' then
         ret [''/dev/'' @ take 3 base]
       else
         andthen (print (''Error: Device '' @ d @ '' is not understood by this installer.  It can''))
           (andthen (print ''handle /dev/md..., /dev/[hs]d..., and /dev/mapper/...'')
             (raise InstallerException)))"

section \<open>What a device sits on\<close>

text \<open>
  The storage of a machine as the three sources the installer consults: the text of
  \<open>/proc/mdstat\<close>, the output of \<open>pvs\<close>, and what \<open>blkid\<close> prints for a UUID. While nothing
  changes it, an environment answers every query from it.
\<close>

record storage =
  mdstat :: string
  pvs_out :: string
  blkid_out :: "string \<Rightarrow> string option"

definition storage_env :: "env \<Rightarrow> storage \<Rightarrow> bool" where
  "storage_env E st \<longleftrightarrow> text_pipes E
     \<and> (\<forall>h. read_file E h ''/proc/mdstat'' = Inr (mdstat st))
     \<and> (\<forall>h. run E h [''pvs'', ''--noheadings''] = Inr (0, pvs_out st, []))
     \<and> (\<forall>h u. run E h [''blkid'', ''-t'', u] =
           (case blkid_out st u of None \<Rightarrow> Inr (2, [], []) | Some t \<Rightarrow> Inr (0, t, [])))"

definition resolve :: "storage \<Rightarrow> string \<Rightarrow> string option" where
  "resolve st d =
     (if startswith d ''UUID='' then
        (case blkid_out st d of None \<Rightarrow> None
         | Some t \<Rightarrow> (case unpack2 (split_once (CHR '':'') t) of Inr (p, _) \<Rightarrow> Some p | Inl _ \<Rightarrow> None))
      else if startswith d ''/dev/'' then Some d else None)"

definition md_name :: "string \<Rightarrow> string option" where
  "md_name m = (case unpack2 (split_once (CHR ''['') m) of
     Inr (c, _) \<Rightarrow> Some (''/dev/'' @ c) | Inl _ \<Rightarrow> None)"

text \<open>The devices one level below, and the disk a plain device or partition belongs to.\<close>

definition components :: "storage \<Rightarrow> string \<Rightarrow> string list" where
  "components st d = (case resolve st d of None \<Rightarrow> [] | Some p \<Rightarrow>
     let base = drop 5 p in
     if startswith base ''md'' then
       List.map_filter md_name (md_members base (file_lines (mdstat st)))
     else if startswith base ''mapper/'' then
       (case unpack2 (split_once (CHR ''-'') (drop 7 base)) of
          Inr (vg, _) \<Rightarrow> vg_members vg (split_on NL (pvs_out st)) | Inl _ \<Rightarrow> [])
     else [])"

definition disk_of :: "storage \<Rightarrow> string \<Rightarrow> string option" where
  "disk_of st d = (case resolve st d of None \<Rightarrow> None | Some p \<Rightarrow>
     let base = drop 5 p in
     if startswith base ''sd'' \<or> startswith base ''hd'' then Some (''/dev/'' @ take 3 base) else None)"

inductive underlies :: "storage \<Rightarrow> string \<Rightarrow> string \<Rightarrow> bool" for st where
  disk: "disk_of st d = Some x \<Longrightarrow> underlies st d x"
| component: "c \<in> set (components st d) \<Longrightarrow> underlies st c x \<Longrightarrow> underlies st d x"

inductive_simps underlies_iff: "underlies st d x"

lemma resolve_dev_run:
  assumes "storage_env E st" and "resolve_dev d E w = Some (Inr p, w')"
  shows "resolve st d = Some p"
  using assms
  by (auto simp: resolve_dev_def uuid_to_dev_def storage_env_def resolve_def comp_simps popen_app
      split: if_splits option.splits sum.splits prod.splits)

lemma md_step_InrE:
  assumes "md_step rec m acc E w = Some (Inr xs, w')"
  obtains c ds where "md_name m = Some c" and "rec c E w = Some (Inr ds, w')" and "xs = acc @ ds"
  using assms
  by (auto simp: md_step_def md_name_def comp_simps split: option.splits sum.splits prod.splits)

lemma vg_step_InrE:
  assumes "vg_step rec m acc E w = Some (Inr xs, w')"
  obtains ds where "rec m E w = Some (Inr ds, w')" and "xs = acc @ ds"
  using assms by (auto simp: vg_step_def comp_simps split: option.splits sum.splits prod.splits)

lemma fold_md_run:
  assumes "fold_comp (md_step rec) ms acc E w = Some (Inr xs, w')"
    and "\<And>c w ds w'. rec c E w = Some (Inr ds, w') \<Longrightarrow> set ds = U c"
  shows "set xs = set acc \<union> (\<Union>c\<in>set (List.map_filter md_name ms). U c)"
  using assms(1)
proof (induction ms arbitrary: acc w)
  case Nil
  then show ?case by (simp add: comp_simps map_filter_simps)
next
  case (Cons m ms)
  from Cons.prems obtain ys w1 where step: "md_step rec m acc E w = Some (Inr ys, w1)"
    and rest: "fold_comp (md_step rec) ms ys E w1 = Some (Inr xs, w')"
    by (rule fold_comp_ConsE)
  from step obtain c ds where c: "md_name m = Some c"
    and run: "rec c E w = Some (Inr ds, w1)" and ys: "ys = acc @ ds" by (rule md_step_InrE)
  from run have "set ds = U c" by (rule assms(2))
  with Cons.IH [OF rest] c ys show ?case by (simp add: map_filter_simps Un_assoc)
qed

lemma fold_vg_run:
  assumes "fold_comp (vg_step rec) ms acc E w = Some (Inr xs, w')"
    and "\<And>c w ds w'. rec c E w = Some (Inr ds, w') \<Longrightarrow> set ds = U c"
  shows "set xs = set acc \<union> (\<Union>c\<in>set ms. U c)"
  using assms(1)
proof (induction ms arbitrary: acc w)
  case Nil
  then show ?case by (simp add: comp_simps)
next
  case (Cons m ms)
  from Cons.prems obtain ys w1 where step: "vg_step rec m acc E w = Some (Inr ys, w1)"
    and rest: "fold_comp (vg_step rec) ms ys E w1 = Some (Inr xs, w')"
    by (rule fold_comp_ConsE)
  from step obtain ds where run: "rec m E w = Some (Inr ds, w1)" and ys: "ys = acc @ ds"
    by (rule vg_step_InrE)
  from run have "set ds = U m" by (rule assms(2))
  with Cons.IH [OF rest] ys show ?case by (simp add: Un_assoc)
qed

lemma mapper_devices_run:
  assumes "storage_env E st" and "mapper_devices rec base E w = Some (Inr xs, w')"
  obtains vg lv w1 where "unpack2 (split_once (CHR ''-'') (drop 7 base)) = Inr (vg, lv)"
    and "fold_comp (vg_step rec) (vg_members vg (split_on NL (pvs_out st))) [] E w1
           = Some (Inr xs, w')"
  using assms
  by (auto simp: mapper_devices_def storage_env_def comp_simps popen_app
      split: sum.splits option.splits prod.splits)

lemma startswith_apart:
  "\<not> prefix p q \<Longrightarrow> \<not> prefix q p \<Longrightarrow> startswith s p \<Longrightarrow> \<not> startswith s q"
  by (auto simp: startswith_iff_prefix dest: prefix_same_cases)

text \<open>The three kinds of device name exclude each other.\<close>

lemma kind_mapper: "startswith b ''mapper/'' \<Longrightarrow> \<not> startswith b ''md''"
  by (erule startswith_apart [rotated 2]) simp_all

lemma kind_disk:
  assumes "startswith b ''sd'' \<or> startswith b ''hd''"
  shows "\<not> startswith b ''md''" and "\<not> startswith b ''mapper/''"
  using assms startswith_apart [of "''sd''" "''md''" b] startswith_apart [of "''hd''" "''md''" b]
    startswith_apart [of "''sd''" "''mapper/''" b] startswith_apart [of "''hd''" "''mapper/''" b]
  by auto

lemma underlies_components:
  "disk_of st d = None \<Longrightarrow> {x. underlies st d x} = (\<Union>c\<in>set (components st d). {x. underlies st c x})"
  by (auto simp: underlies_iff [of st d])

lemma underlies_disk:
  assumes "disk_of st d = Some x"
  shows "{y. underlies st d y} = {x}"
proof -
  from assms obtain p where p: "resolve st d = Some p"
    and k: "startswith (drop 5 p) ''sd'' \<or> startswith (drop 5 p) ''hd''"
    by (auto simp: disk_of_def Let_def split: option.splits if_splits)
  from p kind_disk [OF k] have "components st d = []" by (simp add: components_def)
  with assms show ?thesis by (auto simp: underlies_iff [of st d])
qed

text \<open>
  The refinement: \<open>find_base_devices\<close> returns exactly the disks the device sits on.
\<close>

lemma find_base_devices_underlies:
  assumes env: "storage_env E st"
  shows "find_base_devices n d E w = Some (Inr xs, w') \<Longrightarrow> set xs = {x. underlies st d x}"
proof (induction n arbitrary: d w xs w')
  case 0
  then show ?case by (simp add: comp_simps)
next
  case (Suc n)
  let ?U = "\<lambda>c. {x. underlies st c x}"
  from Suc.prems obtain p w1 where res: "resolve_dev d E w = Some (Inr p, w1)"
    unfolding find_base_devices.simps by (rule bnd_InrE)
  have p: "resolve st d = Some p" using env res by (rule resolve_dev_run)
  let ?b = "drop 5 p"
  consider (md) "startswith ?b ''md''" | (lvm) "startswith ?b ''mapper/''"
    | (disk) "startswith ?b ''sd'' \<or> startswith ?b ''hd''"
    | (other) "\<not> startswith ?b ''md''" "\<not> startswith ?b ''mapper/''"
        "\<not> (startswith ?b ''sd'' \<or> startswith ?b ''hd'')" by blast
  then show ?case
  proof cases
    case md
    with Suc.prems res obtain w2 where "fold_comp (md_step (find_base_devices n))
        (md_members ?b (file_lines (mdstat st))) [] E w2 = Some (Inr xs, w')"
      using env by (auto simp: comp_simps open_read_def storage_env_def Let_def)
    from fold_md_run [OF this, of ?U] Suc.IH
    have "set xs = (\<Union>c\<in>set (components st d). ?U c)"
      using md p by (simp add: components_def)
    moreover have "disk_of st d = None"
      using md p kind_disk(1) by (auto simp: disk_of_def Let_def)
    ultimately show ?thesis by (simp add: underlies_components)
  next
    case lvm
    with Suc.prems res have "mapper_devices (find_base_devices n) ?b E w1 = Some (Inr xs, w')"
      using kind_mapper [OF lvm] by (simp add: comp_simps Let_def)
    then obtain vg lv w2 where vg: "unpack2 (split_once (CHR ''-'') (drop 7 ?b)) = Inr (vg, lv)"
      and run: "fold_comp (vg_step (find_base_devices n)) (vg_members vg (split_on NL (pvs_out st)))
        [] E w2 = Some (Inr xs, w')"
      using env by (elim mapper_devices_run)
    from fold_vg_run [OF run, of ?U] Suc.IH
    have "set xs = (\<Union>c\<in>set (components st d). ?U c)"
      using lvm p vg kind_mapper [OF lvm] by (simp add: components_def Let_def)
    moreover have "disk_of st d = None"
      using lvm p kind_disk(2) by (auto simp: disk_of_def Let_def)
    ultimately show ?thesis by (simp add: underlies_components)
  next
    case disk
    with Suc.prems res have "xs = [''/dev/'' @ take 3 ?b]"
      using kind_disk [OF disk] by (simp add: comp_simps Let_def)
    moreover from disk p have "disk_of st d = Some (''/dev/'' @ take 3 ?b)"
      by (simp add: disk_of_def Let_def)
    ultimately show ?thesis by (simp add: underlies_disk)
  next
    case other
    with Suc.prems res show ?thesis by (simp add: comp_simps print_def Let_def)
  qed
qed


section \<open>When the recursion ends\<close>

text \<open>A chain of \<open>n\<close> devices, each a component of the one before, starting at \<open>d\<close>.\<close>

primrec deep :: "storage \<Rightarrow> nat \<Rightarrow> string \<Rightarrow> bool" where
  "deep st 0 d = True"
| "deep st (Suc n) d = (\<exists>c\<in>set (components st d). deep st n c)"

lemma unpack2_Inl: "unpack2 xs = Inl e \<Longrightarrow> e = ValueError"
  by (auto simp: unpack2_def split: list.splits)

lemma resolve_dev_cases:
  assumes "storage_env E st"
  shows "\<exists>r w'. resolve_dev d E w = Some (r, w') \<and> (case r of
      Inr p \<Rightarrow> resolve st d = Some p
    | Inl e \<Rightarrow> resolve st d = None \<and> e \<in> {InstallerException, ValueError})"
proof -
  consider "startswith d ''UUID=''" | "\<not> startswith d ''UUID=''" "startswith d ''/dev/''"
    | "\<not> startswith d ''UUID=''" "\<not> startswith d ''/dev/''" by blast
  then show ?thesis
  proof cases
    case 1
    with assms show ?thesis
      by (cases "blkid_out st d")
        (auto simp: resolve_dev_def uuid_to_dev_def storage_env_def resolve_def comp_simps popen_app
          print_def dest: unpack2_Inl split: sum.splits)
  next
    case 2
    then show ?thesis by (simp add: resolve_dev_def resolve_def comp_simps)
  next
    case 3
    then show ?thesis by (simp add: resolve_dev_def resolve_def comp_simps print_def)
  qed
qed

lemma mapper_devices_InlE:
  assumes "storage_env E st" and "mapper_devices rec base E w = Some (Inl RecursionError, w')"
  obtains vg lv w1 where "unpack2 (split_once (CHR ''-'') (drop 7 base)) = Inr (vg, lv)"
    and "fold_comp (vg_step rec) (vg_members vg (split_on NL (pvs_out st))) [] E w1
           = Some (Inl RecursionError, w')"
  using assms
  by (auto simp: mapper_devices_def storage_env_def comp_simps popen_app dest: unpack2_Inl
      split: sum.splits option.splits prod.splits)

lemma md_step_InlE:
  assumes "md_step rec m acc E w = Some (Inl RecursionError, w')"
  obtains c where "md_name m = Some c" and "rec c E w = Some (Inl RecursionError, w')"
  using assms
  by (auto simp: md_step_def md_name_def comp_simps dest: unpack2_Inl
      split: option.splits sum.splits prod.splits)

lemma vg_step_InlE:
  assumes "vg_step rec m acc E w = Some (Inl e, w')"
  shows "rec m E w = Some (Inl e, w')"
  using assms by (auto simp: vg_step_def comp_simps split: option.splits sum.splits prod.splits)

lemma find_base_devices_recursion:
  assumes env: "storage_env E st"
  shows "find_base_devices n d E w = Some (Inl RecursionError, w') \<Longrightarrow> deep st n d"
proof (induction n arbitrary: d w w')
  case 0
  show ?case by simp
next
  case (Suc n)
  from resolve_dev_cases [OF env, of d w] obtain r w1 where r: "resolve_dev d E w = Some (r, w1)"
    and c: "case r of Inr p \<Rightarrow> resolve st d = Some p
      | Inl e \<Rightarrow> resolve st d = None \<and> e \<in> {InstallerException, ValueError}" by blast
  show ?case
  proof (cases r)
    case (Inl e)
    with Suc.prems r c show ?thesis by (auto simp: comp_simps)
  next
    case (Inr p)
    with r c have 1: "resolve_dev d E w = Some (Inr p, w1)" "resolve st d = Some p" by simp_all
    let ?b = "drop 5 p"
    consider (md) "startswith ?b ''md''" | (lvm) "startswith ?b ''mapper/''"
      | (disk) "startswith ?b ''sd'' \<or> startswith ?b ''hd''"
      | (other) "\<not> startswith ?b ''md''" "\<not> startswith ?b ''mapper/''"
          "\<not> (startswith ?b ''sd'' \<or> startswith ?b ''hd'')" by blast
    then show ?thesis
    proof cases
      case md
      with Suc.prems 1 obtain w2 where "fold_comp (md_step (find_base_devices n))
          (md_members ?b (file_lines (mdstat st))) [] E w2 = Some (Inl RecursionError, w')"
        using env by (auto simp: comp_simps open_read_def storage_env_def Let_def)
      then obtain m acc w3 where m: "m \<in> set (md_members ?b (file_lines (mdstat st)))"
        and "md_step (find_base_devices n) m acc E w3 = Some (Inl RecursionError, w')"
        by (rule fold_comp_InlE)
      then obtain c where c: "md_name m = Some c" and "find_base_devices n c E w3 = Some (Inl RecursionError, w')"
        by (elim md_step_InlE)
      then have "deep st n c" by (intro Suc.IH)
      moreover have "c \<in> set (components st d)"
        using md 1 m c by (force simp: components_def List.map_filter_def)
      ultimately show ?thesis by auto
    next
      case lvm
      with Suc.prems 1
      have "mapper_devices (find_base_devices n) ?b E w1 = Some (Inl RecursionError, w')"
        using kind_mapper [OF lvm] by (simp add: comp_simps Let_def)
      then obtain vg lv w2 where vg: "unpack2 (split_once (CHR ''-'') (drop 7 ?b)) = Inr (vg, lv)"
        and "fold_comp (vg_step (find_base_devices n)) (vg_members vg (split_on NL (pvs_out st)))
          [] E w2 = Some (Inl RecursionError, w')"
        using env by (elim mapper_devices_InlE)
      from this(2) obtain c acc w3 where c: "c \<in> set (vg_members vg (split_on NL (pvs_out st)))"
        and "vg_step (find_base_devices n) c acc E w3 = Some (Inl RecursionError, w')"
        by (rule fold_comp_InlE)
      then have "deep st n c" by (intro Suc.IH) (rule vg_step_InlE)
      moreover have "c \<in> set (components st d)"
        using lvm 1 vg c kind_mapper [OF lvm] by (simp add: components_def Let_def)
      ultimately show ?thesis by auto
    next
      case disk
      with Suc.prems 1 show ?thesis using kind_disk [OF disk] by (simp add: comp_simps Let_def)
    next
      case other
      with Suc.prems 1 show ?thesis by (simp add: comp_simps print_def Let_def)
    qed
  qed
qed

text \<open>In any environment at all the function ends: each call takes one from the stack.\<close>

lemma returns_resolve_dev [returns_rules]: "returns (resolve_dev d)"
  unfolding resolve_dev_def uuid_to_dev_def by (intro returns_rules)

lemma returns_mapper_devices [returns_rules]:
  "(\<And>d. returns (rec d)) \<Longrightarrow> returns (mapper_devices rec base)"
  unfolding mapper_devices_def vg_step_def by (intro returns_rules)

lemma returns_find_base_devices [returns_rules]: "returns (find_base_devices n d)"
proof (induction n arbitrary: d)
  case 0
  show ?case by (simp add: returns_rules)
next
  case (Suc n)
  show ?case unfolding find_base_devices.simps Let_def md_step_def
    by (intro returns_rules Suc.IH)
qed

context harmless_contract
begin

lemma keeps_resolve_dev [keeps_rules]: "keeps P (resolve_dev d)"
  unfolding resolve_dev_def uuid_to_dev_def by (intro keeps_rules harmless_ok) simp_all

lemma keeps_mapper_devices [keeps_rules]:
  "(\<And>d. keeps P (rec d)) \<Longrightarrow> keeps P (mapper_devices rec base)"
  unfolding mapper_devices_def vg_step_def by (intro keeps_rules harmless_ok) simp_all

lemma keeps_find_base_devices [keeps_rules]: "keeps P (find_base_devices n d)"
proof (induction n arbitrary: d)
  case 0
  show ?case by (simp add: keeps_rules)
next
  case (Suc n)
  show ?case unfolding find_base_devices.simps Let_def md_step_def
    by (intro keeps_rules Suc.IH harmless_ok) simp_all
qed

end

section \<open>Properties\<close>

definition raid_storage :: storage where
  "raid_storage = \<lparr>mdstat = ''md0 : active raid1 sdb1[1] sda1[0]'' @ [NL],
     pvs_out = ''  /dev/md0 vg01 lvm2 a-- 9.5g 0'' @ [NL], blkid_out = (\<lambda>_. None)\<rparr>"

definition raid_env :: env where
  "raid_env = plain_env\<lparr>
     read_file := (\<lambda>_ f. if f = ''/proc/mdstat'' then Inr (mdstat raid_storage) else Inl OSError),
     run := (\<lambda>_ argv. if argv = [''pvs'', ''--noheadings''] then Inr (0, pvs_out raid_storage, [])
       else Inr (2, [], []))\<rparr>"

lemma raid_env_storage: "storage_env raid_env raid_storage"
  by (simp add: storage_env_def raid_env_def raid_storage_def plain_env_def)

lemma raid_env_run:
  "map_option fst (find_base_devices 4 ''/dev/mapper/vg01-root'' raid_env start_world)
     = Some (Inr [''/dev/sdb'', ''/dev/sda''])"
  by code_simp

text \<open>
  C3: \<open>find_base_devices\<close> returns exactly the disks a device sits on: following RAID members,
  physical volumes and UUIDs down from the device, every disk reached is in the list and
  nothing else is. The storage is any text of \<open>/proc/mdstat\<close>, \<open>pvs\<close> and \<open>blkid\<close>.
\<close>

theorem find_base_devices_exact:
  assumes "storage_env E st" and "find_base_devices n d E w = Some (Inr xs, w')"
  shows "set xs = {x. underlies st d x}"
  using assms by (rule find_base_devices_underlies)

theorem find_base_devices_exact_witness:
  "{x. underlies raid_storage ''/dev/mapper/vg01-root'' x} = {''/dev/sdb'', ''/dev/sda''}"
proof -
  from raid_env_run obtain w' where
    "find_base_devices 4 ''/dev/mapper/vg01-root'' raid_env start_world
       = Some (Inr [''/dev/sdb'', ''/dev/sda''], w')" by auto
  from find_base_devices_exact [OF raid_env_storage this] show ?thesis by simp
qed

text \<open>
  C4: The recursion of \<open>find_base_devices\<close> always ends, and \<open>RecursionError\<close> can only mean that
  the storage holds a chain of as many devices, each a component of the one before, as the
  stack allowed: storage that does not sit on itself is always traced to the end.
\<close>

theorem find_base_devices_ends:
  assumes "storage_env E st" and "\<not> deep st n d"
  shows "\<exists>r w'. find_base_devices n d E w = Some (r, w') \<and> r \<noteq> Inl RecursionError"
  using returnsD [OF returns_find_base_devices, of n d E w] assms
    find_base_devices_recursion [OF assms(1)] by blast

theorem find_base_devices_ends_witness:
  "\<exists>r w'. find_base_devices 4 ''/dev/mapper/vg01-root'' raid_env start_world = Some (r, w')
     \<and> r \<noteq> Inl RecursionError"
  by (rule find_base_devices_ends [OF raid_env_storage]) code_simp

end
