(* ===== verification/Devices.thy ===== *)
theory Devices
  imports BaseDev
begin

text \<open>
  The device lists of the \<open>Installer\<close> class: \<open>read_devs\<close>, \<open>get_vgs\<close>, \<open>clean_vgs\<close>,
  \<open>get_base_devs\<close> and \<open>find_devices\<close>.
\<close>

section \<open>read_devs\<close>

text \<open>The loop over \<open>/proc/diskstats\<close>; a line of fewer than three words raises \<open>IndexError\<close>.\<close>

fun diskstat_devs :: "string list \<Rightarrow> exn + string list" where
  "diskstat_devs [] = Inr []"
| "diskstat_devs (l # ls) =
     (case index (words l) 2 of
        Inl e \<Rightarrow> Inl e
      | Inr n \<Rightarrow> (case diskstat_devs ls of
            Inl e \<Rightarrow> Inl e
          | Inr ds \<Rightarrow>
              if startswith n ''sd'' \<or> startswith n ''hd'' then Inr ((''/dev/'' @ n) # ds)
              else if startswith n ''md'' then Inr ((''/dev/'' @ n) # ds)
              else Inr ds))"

text \<open>The loop over the output of \<open>lvs\<close>: \<open>/dev/<group>/<volume>\<close> for every line.\<close>

fun lvs_devs :: "string list \<Rightarrow> exn + string list" where
  "lvs_devs [] = Inr []"
| "lvs_devs (l # ls) =
     (case words l of
        [] \<Rightarrow> lvs_devs ls
      | [_] \<Rightarrow> Inl IndexError
      | lv # vg # _ \<Rightarrow> (case lvs_devs ls of
            Inl e \<Rightarrow> Inl e
          | Inr ds \<Rightarrow> Inr ((''/dev/'' @ vg @ ''/'' @ lv) # ds)))"

definition restart_arrays :: "bool \<Rightarrow> unit os" where
  "restart_arrays start = block [
     ignore (call_cmd (TupleC [''vgchange'', ''-a'', ''n'']) True),
     ignore (call_cmd (TupleC [''mdadm'', ''--stop'', ''--scan'']) True),
     whenc start (block [
       ignore (call_cmd (TupleC [''mdadm'', ''--assemble'', ''--scan'', ''--run'']) True),
       ignore (call_cmd (TupleC [''vgscan'']) True),
       ignore (call_cmd (TupleC [''vgchange'', ''-a'', ''y'']) True)])]"

definition list_devs :: "unit os" where
  "list_devs =
     bnd (open_read ''/proc/diskstats'') (\<lambda>txt.
     bnd (lift_res (diskstat_devs (file_lines txt))) (\<lambda>devs.
     bnd (popen [''lvs'', ''--noheadings'', ''--nosuffix'']) (\<lambda>(rc, out, err).
     bnd (pipe_split NL out) (\<lambda>ls.
     bnd (lift_res (lvs_devs ls)) (\<lambda>lvs.
     modify_st (\<lambda>w. w\<lparr>alldevs := devs @ lvs\<rparr>))))))"

definition read_devs :: "bool \<Rightarrow> unit os" where
  "read_devs start = andthen (restart_arrays start) list_devs"

text \<open>\<open>Installer()\<close> is \<open>read_devs(start=True)\<close> on an object with the class's empty fields.\<close>

definition installer_init :: "unit os" where
  "installer_init = read_devs True"

section \<open>Volume groups\<close>

fun first_words :: "string list \<Rightarrow> string list" where
  "first_words [] = []"
| "first_words (l # ls) = (case words l of [] \<Rightarrow> first_words ls | w # _ \<Rightarrow> w # first_words ls)"

definition get_vgs :: "string list os" where
  "get_vgs =
     bnd (call_lvmdispcmd ''vgs'' []) (\<lambda>out.
     bnd (pipe_split NL out) (\<lambda>ls. ret (first_words ls)))"

definition clean_vgs :: "unit os" where
  "clean_vgs =
     bnd get_vgs (\<lambda>vgs. for_each vgs (\<lambda>v. block [
       print (''Removing volume group '' @ v),
       ignore (call_lvmcmd ''vgremove'' [''--force'', v])]))"

section \<open>Base devices\<close>

definition is_base_dev :: "string \<Rightarrow> bool" where
  "is_base_dev d \<longleftrightarrow> \<not> isdigit (last1 d) \<and> count_list d (CHR ''/'') = 2"

definition get_base_devs :: "string list os" where
  "get_base_devs = get_st (\<lambda>w. filter is_base_dev (alldevs w))"

text \<open>
  \<open>find_devices(dev, dev_part)\<close>: the arguments only matter by being \<open>None\<close>. The patterns
  \<open>^sd[a-z][0-9]$\<close> and \<open>^sd[a-z]$\<close> are matched against a word of the line.
\<close>

definition is_lower_char :: "char \<Rightarrow> bool" where
  "is_lower_char c \<longleftrightarrow> (let n = (of_char c :: nat) in 97 \<le> n \<and> n \<le> 122)"

fun match_sd_part :: "string \<Rightarrow> bool" where
  "match_sd_part [a, b, c, d] = (a = CHR ''s'' \<and> b = CHR ''d'' \<and> is_lower_char c \<and> is_digit d)"
| "match_sd_part _ = False"

fun match_sd :: "string \<Rightarrow> bool" where
  "match_sd [a, b, c] = (a = CHR ''s'' \<and> b = CHR ''d'' \<and> is_lower_char c)"
| "match_sd _ = False"

fun scan_devices :: "bool \<Rightarrow> bool \<Rightarrow> string list \<Rightarrow> exn + string list" where
  "scan_devices parts disks [] = Inr []"
| "scan_devices parts disks (l # ls) =
     (if \<not> parts \<and> \<not> disks then scan_devices parts disks ls
      else (case index (words l) 2 of
        Inl e \<Rightarrow> Inl e
      | Inr n \<Rightarrow> (case scan_devices parts disks ls of
            Inl e \<Rightarrow> Inl e
          | Inr ds \<Rightarrow> Inr ((if parts \<and> match_sd_part n then [''/dev/'' @ n] else [])
              @ (if disks \<and> match_sd n then [''/dev/'' @ n] else []) @ ds))))"

definition find_devices :: "int option \<Rightarrow> int option \<Rightarrow> string list os" where
  "find_devices d dev_part =
     bnd (open_read ''/proc/diskstats'') (\<lambda>txt.
       lift_res (scan_devices (d = None) (dev_part = None) (file_lines txt)))"

section \<open>What they keep, and that they end\<close>

lemma returns_read_devs [returns_rules]: "returns (read_devs start)"
  unfolding read_devs_def restart_arrays_def list_devs_def by (intro returns_rules)

lemma returns_installer_init [returns_rules]: "returns installer_init"
  unfolding installer_init_def by (intro returns_rules)

lemma returns_get_vgs [returns_rules]: "returns get_vgs"
  unfolding get_vgs_def by (intro returns_rules)

lemma returns_clean_vgs [returns_rules]: "returns clean_vgs"
  unfolding clean_vgs_def by (intro returns_rules)

lemma returns_get_base_devs [returns_rules]: "returns get_base_devs"
  unfolding get_base_devs_def by (intro returns_rules)

lemma returns_find_devices [returns_rules]: "returns (find_devices d p)"
  unfolding find_devices_def by (intro returns_rules)

context field_contract
begin

lemma keeps_read_devs [keeps_rules]: "keeps P (read_devs start)"
  unfolding read_devs_def restart_arrays_def list_devs_def
  by (intro keeps_rules harmless_ok keeps_modify_st set_alldevs) simp_all

lemma keeps_installer_init [keeps_rules]: "keeps P installer_init"
  unfolding installer_init_def by (intro keeps_rules)

lemma keeps_get_vgs [keeps_rules]: "keeps P get_vgs"
  unfolding get_vgs_def by (intro keeps_rules harmless_ok) simp_all

lemma keeps_get_base_devs [keeps_rules]: "keeps P get_base_devs"
  unfolding get_base_devs_def by (intro keeps_rules)

lemma keeps_find_devices [keeps_rules]: "keeps P (find_devices d p)"
  unfolding find_devices_def by (intro keeps_rules harmless_ok) simp_all

end

end
