(* ===== verification/Fstab.thy ===== *)
theory Fstab
  imports Devices
begin

text \<open>
  The mount table of the \<open>Installer\<close> class and the operations on it: \<open>reread_fstab\<close>,
  \<open>mount\<close>, \<open>unmount\<close>, \<open>mount_all\<close>, \<open>unmount_all\<close>, \<open>copy_dev\<close>, \<open>clean_system\<close>,
  \<open>find_boot_devices\<close> and \<open>partition\<close>.
\<close>

section \<open>Class constants\<close>

definition mpref :: string where
  "mpref = ''/t''"

definition smounts :: mount_table where
  "smounts =
     [(''/dev'', \<lparr>mdev = ''none'', mtype = ''tmpfs'', mopts = None\<rparr>),
      (''/proc'', \<lparr>mdev = ''none'', mtype = ''proc'', mopts = None\<rparr>),
      (''/sys'', \<lparr>mdev = ''none'', mtype = ''sysfs'', mopts = None\<rparr>)]"

definition ignore_fs_types :: "string list" where
  "ignore_fs_types = [''proc'', ''tmpfs'', ''devpts'', ''usbfs'', ''auto'', ''swap'']"

section \<open>Reading an fstab\<close>

text \<open>One line: nothing for a blank line, a comment or an ignored type.\<close>

definition fstab_line :: "string \<Rightarrow> exn + (string \<times> mount_info) option" where
  "fstab_line l0 =
     (let l = strip l0 in
      if l = [] then Inr None
      else if l ! 0 = CHR ''#'' then Inr None
      else let w = words l in
        case index w 2 of
          Inl e \<Rightarrow> Inl e
        | Inr t \<Rightarrow>
            if t \<in> set ignore_fs_types then Inr None
            else (case index w 3 of
                Inl e \<Rightarrow> Inl e
              | Inr opts \<Rightarrow> Inr (Some (w ! 1, \<lparr>mdev = w ! 0, mtype = t, mopts = Some opts\<rparr>))))"

fun parse_fstab :: "mount_table \<Rightarrow> string list \<Rightarrow> exn + mount_table" where
  "parse_fstab m [] = Inr m"
| "parse_fstab m (l # ls) =
     (case fstab_line l of
        Inl e \<Rightarrow> Inl e
      | Inr None \<Rightarrow> parse_fstab m ls
      | Inr (Some (mp, info)) \<Rightarrow> parse_fstab (dict_set m mp info) ls)"

definition reread_fstab :: "string \<Rightarrow> unit os" where
  "reread_fstab tab =
     bnd (open_read tab) (\<lambda>txt.
     bnd (lift_res (parse_fstab [] (file_lines txt))) (\<lambda>m.
     if ''/'' \<notin> set (dict_keys m) then
       block [
         print ''ERROR: / is not in the fstab, please redo the partitions and'',
         print ''add / as a mount point'',
         raise InstallerException]
     else
       bnd (ask efi_system) (\<lambda>efi. block [
         whenc (\<not> efi \<and> ''/boot'' \<notin> set (dict_keys m)) (block [
           print ''WARNING: /boot is not in the fstab. This is not an error,'',
           print '' but it is generally recommended that /boot be on a'',
           print '' separate partition.'']),
         if efi \<and> ''/boot/efi'' \<notin> set (dict_keys m) then
           block [
             print ''ERROR: This is an EFI system, /boot/efi must be a VFAT'',
             print '' partition of 200MB.'',
             raise InstallerException]
         else modify_st (\<lambda>w. w\<lparr>mounts := m\<rparr>)])))"

section \<open>Mounting and unmounting\<close>

definition unmount :: "string \<Rightarrow> unit os" where
  "unmount m = callu [''umount'', mpref @ m]"

definition unmount_all :: "unit os" where
  "unmount_all =
     bnd (get_st mounts) (\<lambda>ms.
       if ms = [] then skip
       else block [
         for_each (dict_keys smounts) unmount,
         for_each (rev (sort (dict_keys ms))) unmount])"

definition opt_args :: "string \<Rightarrow> string option \<Rightarrow> string list" where
  "opt_args flag v = (case v of None \<Rightarrow> [] | Some s \<Rightarrow> if s = [] then [] else [flag, s])"

definition mount :: "string \<Rightarrow> string \<Rightarrow> string option \<Rightarrow> string option \<Rightarrow> int os" where
  "mount m device t opts =
     andthen (callu [''mkdir'', ''-p'', mpref @ m])
       (call ([''mount''] @ opt_args ''-t'' t @ opt_args ''-o'' opts @ [device] @ [mpref @ m]))"

definition copy_dev :: "unit os" where
  "copy_dev = ignore (shell (''cp -a /dev/* '' @ mpref @ ''/dev''))"

definition mount_entry :: "string \<Rightarrow> mount_info \<Rightarrow> unit os" where
  "mount_entry k i = ignore (mount k (mdev i) (Some (mtype i)) (mopts i))"

definition mount_all :: "unit os" where
  "mount_all =
     bnd (get_st mounts) (\<lambda>ms. block [
       for_each (sort (dict_keys ms)) (\<lambda>k. bnd (lift_res (dict_item ms k)) (mount_entry k)),
       for_each (dict_keys smounts) (\<lambda>k. bnd (lift_res (dict_item smounts k)) (mount_entry k)),
       copy_dev])"

definition clean_system :: "unit os" where
  "clean_system = block [unmount_all, clean_vgs, read_devs False]"

definition partition :: "unit os" where
  "partition = block [
     unmount_all,
     bnd (test (Access ''/tmp/fstab'')) (\<lambda>readable.
       let input_fstab = (if readable then ''/tmp/fstab'' else ''/etc/fstab'') in
       callu [''mvpartition'', ''--output-fstab'', ''/tmp/fstab'', ''--input-fstab'', input_fstab]),
     reread_fstab ''/tmp/fstab'',
     mount_all]"

section \<open>Boot devices\<close>

text \<open>The loop that deletes an element equal to its predecessor; \<open>i\<close> starts at 1.\<close>

function dedup_from :: "nat \<Rightarrow> 'a list \<Rightarrow> 'a list" where
  "dedup_from i ds =
     (if i < length ds then
        if ds ! (i - 1) = ds ! i then dedup_from i (take i ds @ drop (Suc i) ds)
        else dedup_from (Suc i) ds
      else ds)"
  by pat_completeness auto
termination
  by (relation "measure (\<lambda>(i, ds). length ds - i)") auto

declare dedup_from.simps [simp del]

definition find_boot_devices :: "string list os" where
  "find_boot_devices =
     bnd (get_st mounts) (\<lambda>ms.
     bnd (if ''/boot'' \<in> set (dict_keys ms) then ret ''/boot''
          else if ''/'' \<in> set (dict_keys ms) then ret ''/''
          else andthen (print ''Error: Could not find /boot or / in the mounts, cannot find boot'')
            (andthen (print ''devices.'') (raise InstallerException))) (\<lambda>mp.
     bnd (lift_res (dict_item ms mp)) (\<lambda>i.
     bnd (ask stack_left) (\<lambda>n.
     bnd (find_base_devices n (mdev i)) (\<lambda>devs.
     ret (dedup_from 1 (sort devs)))))))"

section \<open>Dictionaries\<close>

lemma dict_keys_set: "dict_keys (dict_set d k v) =
  (if k \<in> set (dict_keys d) then dict_keys d else dict_keys d @ [k])"
  by (induction d k v rule: dict_set.induct) (auto simp: dict_keys_def)

lemma dict_get_set: "dict_get (dict_set d k v) k' = (if k' = k then Some v else dict_get d k')"
  by (induction d k v rule: dict_set.induct) auto

lemma distinct_dict_set: "distinct (dict_keys d) \<Longrightarrow> distinct (dict_keys (dict_set d k v))"
  by (simp add: dict_keys_set)

lemma dict_get_None_iff: "dict_get d k = None \<longleftrightarrow> k \<notin> set (dict_keys d)"
  by (induction d k rule: dict_get.induct) (auto simp: dict_keys_def)

lemma dict_item_key: "k \<in> set (dict_keys d) \<Longrightarrow> \<exists>v. dict_item d k = Inr v"
  using dict_get_None_iff [of d k] by (auto simp: dict_item_def split: option.splits)

lemma dict_get_SomeD: "dict_get d k = Some v \<Longrightarrow> (k, v) \<in> set d"
  by (induction d k rule: dict_get.induct) (auto split: if_splits)

lemma set_dict_setD: "(k', v') \<in> set (dict_set d k v) \<Longrightarrow> v' = v \<or> (k', v') \<in> set d"
  by (induction d k v rule: dict_set.induct) (auto split: if_splits)

section \<open>What a mount table holds\<close>

text \<open>
  The tables \<open>reread_fstab\<close> accepts: no mount point twice, \<open>/\<close> present, \<open>/boot/efi\<close> present on
  an EFI system, no ignored filesystem type, options given for every entry.
\<close>

definition table_ok :: "mount_table \<Rightarrow> bool" where
  "table_ok m \<longleftrightarrow> distinct (dict_keys m)
     \<and> (\<forall>(k, i)\<in>set m. mtype i \<notin> set ignore_fs_types \<and> mopts i \<noteq> None)"

definition mounts_ok :: "env \<Rightarrow> mount_table \<Rightarrow> bool" where
  "mounts_ok E m \<longleftrightarrow> table_ok m \<and> ''/'' \<in> set (dict_keys m)
     \<and> (efi_system E \<longrightarrow> ''/boot/efi'' \<in> set (dict_keys m))"

lemma fstab_line_ok:
  "fstab_line l = Inr (Some (k, i)) \<Longrightarrow> mtype i \<notin> set ignore_fs_types \<and> mopts i \<noteq> None"
  by (auto simp: fstab_line_def Let_def split: if_splits sum.splits)

lemma table_ok_set:
  "table_ok m \<Longrightarrow> mtype i \<notin> set ignore_fs_types \<Longrightarrow> mopts i \<noteq> None \<Longrightarrow> table_ok (dict_set m k i)"
  by (auto simp: table_ok_def distinct_dict_set dest!: set_dict_setD)

lemma parse_fstab_ok: "table_ok m \<Longrightarrow> parse_fstab m ls = Inr m' \<Longrightarrow> table_ok m'"
proof (induction m ls rule: parse_fstab.induct)
  case (1 m)
  then show ?case by simp
next
  case (2 m l ls)
  show ?case
  proof (cases "fstab_line l")
    case (Inl e)
    with 2 show ?thesis by simp
  next
    case (Inr z)
    show ?thesis
    proof (cases z)
      case None
      with 2 Inr show ?thesis by simp
    next
      case (Some ki)
      obtain k i where ki: "ki = (k, i)" by (cases ki)
      with Inr Some have "mtype i \<notin> set ignore_fs_types \<and> mopts i \<noteq> None"
        by (simp add: fstab_line_ok)
      with 2 Inr Some ki show ?thesis by (simp add: table_ok_set)
    qed
  qed
qed

text \<open>A contract that lets the installer replace its mount table by an accepted one.\<close>

locale mount_contract = field_contract +
  assumes set_mounts: "P E w \<Longrightarrow> mounts_ok E m \<Longrightarrow> P E (w\<lparr>mounts := m\<rparr>)"

text \<open>And one under which every event is allowed, those that reformat a device too.\<close>

locale full_contract = mount_contract +
  assumes all_ok: "ok e"

section \<open>The contracts on the installer's state\<close>

text \<open>
  Three predicates with these contracts: that only harmless events happened since some
  world, that the trace of some world is still a prefix of the trace, and that the mount
  table is empty or one \<open>reread_fstab\<close> accepts.
\<close>

interpretation harmless_run: mount_contract "\<lambda>e. \<not> reformats e" "since (\<lambda>e. \<not> reformats e) w0" for w0
  by unfold_locales (auto simp: since_def)

interpretation log_grows: full_contract "\<lambda>_. True" "since (\<lambda>_. True) w0" for w0
  by unfold_locales (auto simp: since_def)

definition state_ok :: "env \<Rightarrow> world \<Rightarrow> bool" where
  "state_ok E w \<longleftrightarrow> mounts w = [] \<or> mounts_ok E (mounts w)"

interpretation table_kept: full_contract "\<lambda>_. True" state_ok
  by unfold_locales (auto simp: state_ok_def)

section \<open>What the operations keep, and that they end\<close>

lemma returns_reread_fstab [returns_rules]: "returns (reread_fstab tab)"
  unfolding reread_fstab_def by (intro returns_rules)

lemma returns_unmount [returns_rules]: "returns (unmount m)"
  unfolding unmount_def by (intro returns_rules)

lemma returns_unmount_all [returns_rules]: "returns unmount_all"
  unfolding unmount_all_def by (intro returns_rules)

lemma returns_mount [returns_rules]: "returns (mount m d t opts)"
  unfolding mount_def by (intro returns_rules)

lemma returns_copy_dev [returns_rules]: "returns copy_dev"
  unfolding copy_dev_def by (intro returns_rules)

lemma returns_mount_all [returns_rules]: "returns mount_all"
  unfolding mount_all_def mount_entry_def by (intro returns_rules)

lemma returns_clean_system [returns_rules]: "returns clean_system"
  unfolding clean_system_def by (intro returns_rules)

lemma returns_partition [returns_rules]: "returns partition"
  unfolding partition_def Let_def by (intro returns_rules)

lemma returns_find_boot_devices [returns_rules]: "returns find_boot_devices"
  unfolding find_boot_devices_def by (intro returns_rules)

text \<open>The result and the new table of \<open>reread_fstab\<close>, for every file content.\<close>

definition fstab_outcome :: "env \<Rightarrow> exn + string \<Rightarrow> exn + mount_table" where
  "fstab_outcome E c = (case c of Inl e \<Rightarrow> Inl e | Inr txt \<Rightarrow>
     (case parse_fstab [] (file_lines txt) of Inl e \<Rightarrow> Inl e | Inr m \<Rightarrow>
        if mounts_ok E m then Inr m else Inl InstallerException))"

lemma parse_fstab_table_ok: "parse_fstab [] ls = Inr m \<Longrightarrow> table_ok m"
  by (rule parse_fstab_ok [of "[]"]) (simp_all add: table_ok_def dict_keys_def)

lemma reread_fstab_run:
  "\<exists>w'. reread_fstab tab E w = Some (case fstab_outcome E (read_file E (trace w) tab) of
       Inl e \<Rightarrow> Inl e | Inr _ \<Rightarrow> Inr (), w')
   \<and> quiet (case fstab_outcome E (read_file E (trace w) tab) of
       Inl _ \<Rightarrow> w | Inr m \<Rightarrow> w\<lparr>mounts := m\<rparr>) w'"
proof (cases "read_file E (trace w) tab")
  case (Inl e)
  then show ?thesis
    by (auto simp: reread_fstab_def fstab_outcome_def comp_simps open_read_def
        intro!: quiet_emit quiet_refl)
next
  case (Inr c)
  show ?thesis
  proof (cases "parse_fstab [] (file_lines c)")
    case (Inl e)
    with Inr show ?thesis
      by (auto simp: reread_fstab_def fstab_outcome_def comp_simps open_read_def
          intro!: quiet_emit quiet_refl)
  next
    case (Inr m)
    with \<open>read_file E (trace w) tab = Inr c\<close> parse_fstab_table_ok [OF Inr] show ?thesis
      by (auto simp: reread_fstab_def fstab_outcome_def mounts_ok_def comp_simps open_read_def
          print_def intro!: quiet_emit quiet_refl)
  qed
qed

context harmless_contract
begin

lemma keeps_unmount [keeps_rules]: "keeps P (unmount m)"
  unfolding unmount_def by (intro keeps_rules harmless_ok) simp_all

lemma keeps_unmount_all [keeps_rules]: "keeps P unmount_all"
  unfolding unmount_all_def by (intro keeps_rules)

lemma keeps_mount [keeps_rules]: "keeps P (mount m d t opts)"
  unfolding mount_def by (intro keeps_rules harmless_ok) simp_all

lemma keeps_copy_dev [keeps_rules]: "keeps P copy_dev"
  unfolding copy_dev_def by (intro keeps_rules harmless_ok) simp_all

lemma keeps_mount_all [keeps_rules]: "keeps P mount_all"
  unfolding mount_all_def mount_entry_def by (intro keeps_rules)

lemma keeps_find_boot_devices [keeps_rules]: "keeps P find_boot_devices"
  unfolding find_boot_devices_def by (intro keeps_rules harmless_ok) simp_all

end

context mount_contract
begin

lemma keeps_reread_fstab [keeps_rules]: "keeps P (reread_fstab tab)"
proof (rule keepsI)
  fix E r and w w' :: world
  let ?o = "fstab_outcome E (read_file E (trace w) tab)"
  assume P: "P E w" and run: "reread_fstab tab E w = Some (r, w')"
  with reread_fstab_run [of tab E w]
  have "quiet (case ?o of Inl _ \<Rightarrow> w | Inr m \<Rightarrow> w\<lparr>mounts := m\<rparr>) w'" by auto
  moreover have "P E (case ?o of Inl _ \<Rightarrow> w | Inr m \<Rightarrow> w\<lparr>mounts := m\<rparr>)"
    using P set_mounts by (auto simp: fstab_outcome_def split: sum.splits)
  ultimately show "P E w'" by (rule keeps_quiet)
qed

end

context full_contract
begin

lemma keeps_clean_vgs [keeps_rules]: "keeps P clean_vgs"
  unfolding clean_vgs_def by (intro keeps_rules all_ok)

lemma keeps_clean_system [keeps_rules]: "keeps P clean_system"
  unfolding clean_system_def by (intro keeps_rules)

lemma keeps_partition [keeps_rules]: "keeps P partition"
  unfolding partition_def Let_def by (intro keeps_rules all_ok)

end

end
