(* ===== verification/FstabFacts.thy ===== *)
theory FstabFacts
  imports Fstab
begin

text \<open>
  The properties of the mount table: what \<open>reread_fstab\<close> accepts and that it replaces the
  table in one step or not at all; the order in which filesystems are mounted and unmounted;
  the boot devices as a sorted set.
\<close>

section \<open>The fstab\<close>

text \<open>
  C5: \<open>reread_fstab\<close> replaces the mount table by the parsed file or leaves it alone. It succeeds
  exactly when the file can be read and parsed and the table has \<open>/\<close>, and \<open>/boot/efi\<close> on an EFI
  system; in every other case (missing file, a line with too few fields, a missing mount
  point) the exception leaves the table and the other fields as they were.
\<close>

theorem reread_fstab_all_or_nothing:
  "\<exists>w'. reread_fstab tab E w = Some (case fstab_outcome E (read_file E (trace w) tab) of
         Inl e \<Rightarrow> Inl e | Inr _ \<Rightarrow> Inr (), w')
     \<and> mounts w' = (case fstab_outcome E (read_file E (trace w) tab) of
         Inl _ \<Rightarrow> mounts w | Inr m \<Rightarrow> m)
     \<and> installed w' = installed w \<and> alldevs w' = alldevs w"
proof -
  let ?o = "fstab_outcome E (read_file E (trace w) tab)"
  let ?w = "case ?o of Inl _ \<Rightarrow> w | Inr m \<Rightarrow> w\<lparr>mounts := m\<rparr>"
  from reread_fstab_run [of tab E w] obtain w' where
    "reread_fstab tab E w = Some (case ?o of Inl e \<Rightarrow> Inl e | Inr _ \<Rightarrow> Inr (), w')"
    and "quiet ?w w'" by blast
  with quiet_fields [of ?w w'] show ?thesis by (auto split: sum.splits)
qed

section \<open>Mounting order\<close>

definition mount_events :: "string \<Rightarrow> mount_info \<Rightarrow> event list" where
  "mount_events k i =
     [Call [''mkdir'', ''-p'', mpref @ k],
      Call ([''mount''] @ opt_args ''-t'' (Some (mtype i)) @ opt_args ''-o'' (mopts i)
        @ [mdev i] @ [mpref @ k])]"

definition table_events :: "mount_table \<Rightarrow> string list \<Rightarrow> event list" where
  "table_events ms ks = concat (map (\<lambda>k. case dict_item ms k of
     Inl _ \<Rightarrow> [] | Inr i \<Rightarrow> mount_events k i) ks)"

definition unmount_events :: "string list \<Rightarrow> event list" where
  "unmount_events ks = map (\<lambda>k. Call [''umount'', mpref @ k]) ks"

text \<open>The directories mounted and unmounted by a list of events, in order.\<close>

fun mounted_dirs :: "event list \<Rightarrow> string list" where
  "mounted_dirs [] = []"
| "mounted_dirs (Call argv # es) =
     (if take 1 argv = [''mount''] then last argv # mounted_dirs es else mounted_dirs es)"
| "mounted_dirs (e # es) = mounted_dirs es"

fun unmounted_dirs :: "event list \<Rightarrow> string list" where
  "unmounted_dirs [] = []"
| "unmounted_dirs (Call argv # es) =
     (if take 1 argv = [''umount''] then last argv # unmounted_dirs es else unmounted_dirs es)"
| "unmounted_dirs (e # es) = unmounted_dirs es"

definition comes_before :: "'a \<Rightarrow> 'a \<Rightarrow> 'a list \<Rightarrow> bool" where
  "comes_before x y xs \<longleftrightarrow> (\<exists>as bs. xs = as @ bs \<and> x \<in> set as \<and> y \<in> set bs)"

lemma logs_mount [logs_rules]:
  "logs (mount k d t opts) [Call [''mkdir'', ''-p'', mpref @ k],
     Call ([''mount''] @ opt_args ''-t'' t @ opt_args ''-o'' opts @ [d] @ [mpref @ k])]"
  using logs_andthen [OF logs_callu logs_prim(3)] by (simp add: mount_def)

lemma logs_mount_entry: "logs (mount_entry k i) (mount_events k i)"
  using logs_ignore [OF logs_mount] by (simp add: mount_entry_def mount_events_def)

lemma logs_mount_item:
  "logs (bnd (lift_res (dict_item ms k)) (mount_entry k))
     (case dict_item ms k of Inl _ \<Rightarrow> [] | Inr i \<Rightarrow> mount_events k i)"
  by (rule logs_lift_bnd) (simp add: logs_mount_entry)

lemma logs_copy_dev: "logs copy_dev [Shell ''cp -a /dev/* /t/dev'']"
  using logs_ignore [OF logs_prim(4)] by (simp add: copy_dev_def mpref_def)

lemma mount_all_log:
  assumes "mount_all E w = Some (Inr x, w')"
  shows "w' = w\<lparr>trace := trace w @ table_events (mounts w) (sort (dict_keys (mounts w)))
    @ table_events smounts (dict_keys smounts) @ [Shell ''cp -a /dev/* /t/dev'']\<rparr>"
proof -
  let ?loop = "\<lambda>ms ks. for_each ks (\<lambda>k. bnd (lift_res (dict_item ms k)) (mount_entry k))"
  have loop: "logs (?loop ms ks) (table_events ms ks)" for ms ks
    unfolding table_events_def by (rule logs_for_each) (rule logs_mount_item)
  have "logs (block [?loop (mounts w) (sort (dict_keys (mounts w))),
      ?loop smounts (dict_keys smounts), copy_dev])
      (table_events (mounts w) (sort (dict_keys (mounts w))) @ table_events smounts (dict_keys smounts)
        @ [Shell ''cp -a /dev/* /t/dev''] @ [])" (is "logs ?m ?es")
    by (intro logs_block_Cons logs_block_Nil loop logs_copy_dev)
  moreover from assms have "?m E w = Some (Inr x, w')" by (simp add: mount_all_def comp_simps)
  ultimately show ?thesis by (auto dest: logsD)
qed

lemma mounted_dirs_append: "mounted_dirs (es @ fs) = mounted_dirs es @ mounted_dirs fs"
  by (induction es rule: mounted_dirs.induct) auto

lemma mounted_dirs_table:
  "set ks \<subseteq> set (dict_keys ms) \<Longrightarrow> mounted_dirs (table_events ms ks) = map (\<lambda>k. mpref @ k) ks"
proof (induction ks)
  case Nil
  then show ?case by (simp add: table_events_def)
next
  case (Cons k ks)
  then obtain i where "dict_item ms k = Inr i" using dict_item_key [of k ms] by auto
  with Cons show ?case
    by (simp add: table_events_def mounted_dirs_append mount_events_def)
qed

lemma comes_before_append: "comes_before x y xs \<Longrightarrow> comes_before x y (zs @ xs @ ys)"
  unfolding comes_before_def by (metis append.assoc Un_iff set_append)

lemma comes_before_map: "comes_before x y xs \<Longrightarrow> comes_before (f x) (f y) (map f xs)"
  by (fastforce simp: comes_before_def)

lemma comes_before_rev: "comes_before x y xs \<Longrightarrow> comes_before y x (rev xs)"
  unfolding comes_before_def by (metis rev_append set_rev)

lemma sorted_comes_before:
  assumes "sorted xs" and "x \<in> set xs" and "y \<in> set xs" and "x < y"
  shows "comes_before x y xs"
proof -
  from split_list [OF assms(3)] obtain as bs where xs: "xs = as @ y # bs" by blast
  with assms(1) have "\<forall>b\<in>set bs. y \<le> b" by (simp add: sorted_append)
  with assms(2,4) xs have "x \<in> set as" by auto
  with xs show ?thesis unfolding comes_before_def by (intro exI [of _ as] exI [of _ "y # bs"]) simp
qed

lemma prefix_comes_before:
  assumes "strict_prefix a b" and "a \<in> set ks" and "b \<in> set ks"
  shows "comes_before a (b :: string) (sort ks)"
proof (rule sorted_comes_before)
  from assms(1) show "a < b"
    using prefix_le_lexord [of a b] by (auto simp: strict_prefix_def order_less_le)
qed (use assms in simp_all)

lemma completes_mount_all: "starts_all E \<Longrightarrow> completes E mount_all"
proof -
  assume E: "starts_all E"
  have item: "completes E (bnd (lift_res (dict_item ms k)) (mount_entry k))"
    if "k \<in> set (dict_keys ms)" for ms k
  proof -
    from dict_item_key [OF that] obtain i where "dict_item ms k = Inr i" by blast
    with E show ?thesis unfolding mount_entry_def mount_def
      by (auto intro!: completes_rules completes_lift_res)
  qed
  show ?thesis unfolding mount_all_def copy_dev_def
    by (intro completes_rules completes_for_each item) simp_all
qed

text \<open>
  C6: As long as the programs can be started, \<open>mount_all\<close> mounts every entry of the table under
  \<open>/t\<close>, in sorted order, and then \<open>/dev\<close>, \<open>/proc\<close> and \<open>/sys\<close>, whatever the return codes of the
  mounts; so a filesystem is always mounted after the one that holds its mount point.
\<close>

theorem mount_all_parents_first:
  assumes "starts_all E"
  shows "\<exists>w' es. mount_all E w = Some (Inr (), w') \<and> trace w' = trace w @ es
    \<and> mounted_dirs es =
        map (\<lambda>k. mpref @ k) (sort (dict_keys (mounts w)) @ [''/dev'', ''/proc'', ''/sys''])
    \<and> (\<forall>a b. a \<in> set (dict_keys (mounts w)) \<and> b \<in> set (dict_keys (mounts w)) \<and>
        strict_prefix a b \<longrightarrow> comes_before (mpref @ a) (mpref @ b) (mounted_dirs es))"
proof -
  let ?ks = "dict_keys (mounts w)"
  let ?es = "table_events (mounts w) (sort ?ks)
    @ table_events smounts (dict_keys smounts) @ [Shell ''cp -a /dev/* /t/dev'']"
  have dirs: "mounted_dirs ?es = map (\<lambda>k. mpref @ k) (sort ?ks) @ [''/t/dev'', ''/t/proc'', ''/t/sys'']"
    by (simp add: mounted_dirs_append mounted_dirs_table)
      (simp add: smounts_def dict_keys_def mpref_def)
  have before: "comes_before (mpref @ a) (mpref @ b) (mounted_dirs ?es)"
    if "a \<in> set ?ks" and "b \<in> set ?ks" and "strict_prefix a b" for a b
  proof -
    from that have "comes_before (mpref @ a) (mpref @ b) (map (\<lambda>k. mpref @ k) (sort ?ks))"
      by (intro comes_before_map prefix_comes_before)
    then show ?thesis using comes_before_append [of _ _ _ "[]"] by (simp add: dirs)
  qed
  from completesD [OF completes_mount_all [OF assms]] obtain w'
    where run: "mount_all E w = Some (Inr (), w')" by fastforce
  from mount_all_log [OF run] have "trace w' = trace w @ ?es" by simp
  with run dirs before show ?thesis
    by (intro exI [of _ w'] exI [of _ ?es] conjI) (simp_all add: mpref_def)
qed

definition three_mounts :: mount_table where
  "three_mounts =
     [(''/boot/efi'', \<lparr>mdev = ''/dev/sda1'', mtype = ''vfat'', mopts = Some ''defaults''\<rparr>),
      (''/'', \<lparr>mdev = ''/dev/mapper/vg01-root'', mtype = ''ext4'', mopts = Some ''defaults''\<rparr>),
      (''/boot'', \<lparr>mdev = ''/dev/sda2'', mtype = ''ext4'', mopts = Some ''ro''\<rparr>)]"

lemma plain_env_starts: "starts_all plain_env"
  by (simp add: starts_all_def plain_env_def)

theorem mount_all_parents_first_witness:
  "\<exists>w' es. mount_all plain_env (start_world\<lparr>mounts := three_mounts\<rparr>) = Some (Inr (), w')
    \<and> trace w' = es
    \<and> mounted_dirs es = [''/t/'', ''/t/boot'', ''/t/boot/efi'', ''/t/dev'', ''/t/proc'', ''/t/sys'']
    \<and> comes_before ''/t/boot'' ''/t/boot/efi'' (mounted_dirs es)"
proof -
  let ?w = "start_world\<lparr>mounts := three_mounts\<rparr>"
  have keys: "dict_keys (mounts ?w) = [''/boot/efi'', ''/'', ''/boot'']"
    by (simp add: dict_keys_def three_mounts_def)
  have sorted: "sort (dict_keys (mounts ?w)) = [''/'', ''/boot'', ''/boot/efi'']"
    unfolding keys by code_simp
  from mount_all_parents_first [OF plain_env_starts, of ?w] obtain w' es where
    "mount_all plain_env ?w = Some (Inr (), w')" and "trace w' = trace ?w @ es"
    and dirs: "mounted_dirs es =
      map (\<lambda>k. mpref @ k) (sort (dict_keys (mounts ?w)) @ [''/dev'', ''/proc'', ''/sys''])"
    and before: "\<forall>a b. a \<in> set (dict_keys (mounts ?w)) \<and> b \<in> set (dict_keys (mounts ?w)) \<and>
        strict_prefix a b \<longrightarrow> comes_before (mpref @ a) (mpref @ b) (mounted_dirs es)"
    by blast
  moreover have "comes_before (mpref @ ''/boot'') (mpref @ ''/boot/efi'') (mounted_dirs es)"
    using before unfolding keys by (auto simp: strict_prefix_def)
  ultimately show ?thesis unfolding sorted by (auto simp: mpref_def start_world_def)
qed

lemma logs_unmount: "logs (unmount k) [Call [''umount'', mpref @ k]]"
  by (simp add: unmount_def logs_callu)

lemma unmounted_dirs_append: "unmounted_dirs (es @ fs) = unmounted_dirs es @ unmounted_dirs fs"
  by (induction es rule: unmounted_dirs.induct) auto

lemma unmounted_dirs_events: "unmounted_dirs (unmount_events ks) = map (\<lambda>k. mpref @ k) ks"
  by (induction ks) (simp_all add: unmount_events_def)

lemma unmount_all_log:
  assumes "unmount_all E w = Some (Inr x, w')"
  shows "w' = w\<lparr>trace := trace w @ (if mounts w = [] then []
    else unmount_events (dict_keys smounts @ rev (sort (dict_keys (mounts w)))))\<rparr>"
proof (cases "mounts w = []")
  case True
  with assms show ?thesis by (simp add: unmount_all_def comp_simps)
next
  case False
  let ?loop = "\<lambda>ks. for_each ks unmount"
  have loop: "logs (?loop ks) (unmount_events ks)" for ks
    using logs_for_each [of ks unmount "\<lambda>k. [Call [''umount'', mpref @ k]]"] logs_unmount
    by (simp add: unmount_events_def)
  have "logs (block [?loop (dict_keys smounts), ?loop (rev (sort (dict_keys (mounts w))))])
     (unmount_events (dict_keys smounts) @ unmount_events (rev (sort (dict_keys (mounts w)))) @ [])"
    by (intro logs_block_Cons logs_block_Nil loop)
  moreover from assms False have "block [?loop (dict_keys smounts),
      ?loop (rev (sort (dict_keys (mounts w))))] E w = Some (Inr x, w')"
    by (simp add: unmount_all_def comp_simps)
  ultimately show ?thesis using False by (auto simp: unmount_events_def dest: logsD)
qed

lemma completes_unmount_all: "starts_all E \<Longrightarrow> completes E unmount_all"
  unfolding unmount_all_def unmount_def by (intro completes_rules completes_for_each)

text \<open>
  C7: \<open>unmount_all\<close> does nothing while the mount table is empty; otherwise it unmounts \<open>/dev\<close>,
  \<open>/proc\<close> and \<open>/sys\<close> and then every entry of the table in reverse order, so a filesystem is
  unmounted before the one that holds its mount point.
\<close>

theorem unmount_all_children_first:
  assumes "starts_all E"
  shows "\<exists>w' es. unmount_all E w = Some (Inr (), w') \<and> trace w' = trace w @ es
    \<and> unmounted_dirs es = (if mounts w = [] then []
        else map (\<lambda>k. mpref @ k) ([''/dev'', ''/proc'', ''/sys''] @ rev (sort (dict_keys (mounts w)))))
    \<and> (\<forall>a b. a \<in> set (dict_keys (mounts w)) \<and> b \<in> set (dict_keys (mounts w)) \<and>
        strict_prefix a b \<longrightarrow> comes_before (mpref @ b) (mpref @ a) (unmounted_dirs es))"
proof -
  let ?ks = "dict_keys (mounts w)"
  let ?es = "if mounts w = [] then [] else unmount_events (dict_keys smounts @ rev (sort ?ks))"
  from completesD [OF completes_unmount_all [OF assms]] obtain w'
    where run: "unmount_all E w = Some (Inr (), w')" by fastforce
  have dirs: "unmounted_dirs ?es = (if mounts w = [] then []
      else map (\<lambda>k. mpref @ k) [''/dev'', ''/proc'', ''/sys''] @ map (\<lambda>k. mpref @ k) (rev (sort ?ks)))"
    by (simp add: unmounted_dirs_events) (simp add: smounts_def dict_keys_def)
  have before: "comes_before (mpref @ b) (mpref @ a) (unmounted_dirs ?es)"
    if "a \<in> set ?ks" and "b \<in> set ?ks" and "strict_prefix a b" for a b
  proof -
    from that have "mounts w \<noteq> []" by (auto simp: dict_keys_def)
    moreover from that
    have "comes_before (mpref @ b) (mpref @ a) (map (\<lambda>k. mpref @ k) (rev (sort ?ks)))"
      by (intro comes_before_map comes_before_rev prefix_comes_before)
    ultimately show ?thesis
      using comes_before_append [of _ _ _ "map (\<lambda>k. mpref @ k) [''/dev'', ''/proc'', ''/sys'']" "[]"]
      unfolding dirs by simp
  qed
  from unmount_all_log [OF run] have "trace w' = trace w @ ?es" by simp
  with run dirs before show ?thesis
    by (intro exI [of _ w'] exI [of _ ?es] conjI) simp_all
qed

theorem unmount_all_children_first_witness:
  "\<exists>w'. unmount_all plain_env (start_world\<lparr>mounts := three_mounts\<rparr>) = Some (Inr (), w')
    \<and> comes_before ''/t/boot/efi'' ''/t/boot'' (unmounted_dirs (trace w'))"
proof -
  let ?w = "start_world\<lparr>mounts := three_mounts\<rparr>"
  have keys: "dict_keys (mounts ?w) = [''/boot/efi'', ''/'', ''/boot'']"
    by (simp add: dict_keys_def three_mounts_def)
  from unmount_all_children_first [OF plain_env_starts, of ?w] obtain w' es where
    "unmount_all plain_env ?w = Some (Inr (), w')" and "trace w' = trace ?w @ es"
    and before: "\<forall>a b. a \<in> set (dict_keys (mounts ?w)) \<and> b \<in> set (dict_keys (mounts ?w)) \<and>
        strict_prefix a b \<longrightarrow> comes_before (mpref @ b) (mpref @ a) (unmounted_dirs es)"
    by blast
  moreover have "comes_before (mpref @ ''/boot/efi'') (mpref @ ''/boot'') (unmounted_dirs es)"
    using before unfolding keys by (auto simp: strict_prefix_def)
  ultimately show ?thesis by (auto simp: mpref_def start_world_def)
qed

section \<open>Boot devices\<close>

text \<open>The deduplication loop removes from position \<open>i\<close> on every element equal to its predecessor.\<close>

lemma dedup_from_remdups:
  "0 < i \<Longrightarrow> i \<le> length ds \<Longrightarrow>
     dedup_from i ds = take (i - 1) ds @ remdups_adj (drop (i - 1) ds)"
proof (induction i ds rule: dedup_from.induct)
  case (1 i ds)
  show ?case
  proof (cases "i < length ds")
    case False
    with "1.prems" have i: "i = length ds" by simp
    with "1.prems" have "drop (i - 1) ds = [last ds]"
      by (metis diff_less length_greater_0_conv less_numeral_extra(1) append_butlast_last_id
          butlast_conv_take append_eq_conv_conj length_butlast)
    then have "take (i - 1) ds @ remdups_adj (drop (i - 1) ds) = ds"
      by (metis append_take_drop_id remdups_adj.simps(2))
    with False show ?thesis by (simp add: dedup_from.simps [of i ds])
  next
    case True
    then have split: "drop (i - 1) ds = ds ! (i - 1) # ds ! i # drop (Suc i) ds"
      using "1.prems" by (simp add: Cons_nth_drop_Suc [symmetric])
    show ?thesis
    proof (cases "ds ! (i - 1) = ds ! i")
      case eq: True
      let ?ds = "take i ds @ drop (Suc i) ds"
      have "dedup_from i ?ds = take (i - 1) ?ds @ remdups_adj (drop (i - 1) ?ds)"
        using "1.IH"(1) [OF True eq] "1.prems" True by simp
      moreover have "?ds = take (i - 1) ds @ ds ! (i - 1) # drop (Suc i) ds"
        using True "1.prems" take_Suc_conv_app_nth [of "i - 1" ds] by simp
      then have "take (i - 1) ?ds = take (i - 1) ds"
        and "drop (i - 1) ?ds = ds ! (i - 1) # drop (Suc i) ds"
        using True by simp_all
      ultimately show ?thesis
        using True eq by (subst dedup_from.simps) (simp add: split [unfolded One_nat_def])
    next
      case neq: False
      then have "dedup_from (Suc i) ds = take i ds @ remdups_adj (drop i ds)"
        using "1.IH"(2) [OF True] "1.prems" True by simp
      moreover have "take i ds = take (i - 1) ds @ [ds ! (i - 1)]"
        using True "1.prems" take_Suc_conv_app_nth [of "i - 1" ds] by simp
      moreover have "drop i ds = ds ! i # drop (Suc i) ds"
        using True by (simp add: Cons_nth_drop_Suc)
      ultimately show ?thesis
        using True neq by (subst dedup_from.simps) (simp add: split [unfolded One_nat_def])
    qed
  qed
qed

lemma sorted_remdups_adj: "sorted xs \<Longrightarrow> sorted (remdups_adj xs) \<and> distinct (remdups_adj xs)"
  by (induction xs rule: remdups_adj.induct) (auto simp: order.strict_iff_order)

lemma sorted_remdups_adj_eq:
  "sorted xs \<Longrightarrow> remdups_adj xs = sorted_list_of_set (set xs)"
  using sorted_remdups_adj [of xs] sorted_list_of_set.idem_if_sorted_distinct [of "remdups_adj xs"]
  by simp

lemma dedup_sort_eq: "dedup_from 1 (sort ds) = sorted_list_of_set (set (ds :: 'a :: linorder list))"
proof (cases ds)
  case Nil
  then show ?thesis by (simp add: dedup_from.simps)
next
  case (Cons d ds')
  then have "1 \<le> length (sort ds)" by simp
  then have "dedup_from 1 (sort ds) = remdups_adj (sort ds)"
    using dedup_from_remdups [of 1 "sort ds"] by simp
  then show ?thesis using sorted_remdups_adj_eq [of "sort ds"] by simp
qed

text \<open>
  The loop of \<open>find_boot_devices\<close> that deletes adjacent equal elements, run after the sort,
  gives the sorted list of the distinct elements.
\<close>

theorem dedup_sorted:
  "dedup_from 1 (sort ds) = sorted_list_of_set (set (ds :: string list))"
  by (rule dedup_sort_eq)

definition boot_entry :: "mount_table \<Rightarrow> mount_info option" where
  "boot_entry ms = (if ''/boot'' \<in> set (dict_keys ms) then dict_get ms ''/boot'' else dict_get ms ''/'')"

lemma find_boot_devices_InrE:
  assumes "find_boot_devices E w = Some (Inr xs, w')"
  obtains i ds w1 where "boot_entry (mounts w) = Some i"
    and "find_base_devices (stack_left E) (mdev i) E w1 = Some (Inr ds, w')"
    and "xs = dedup_from 1 (sort ds)"
  using assms
  by (auto simp: find_boot_devices_def boot_entry_def comp_simps print_def dict_item_def
      split: if_splits option.splits sum.splits prod.splits)

text \<open>
  C30: When \<open>find_boot_devices\<close> returns, its list is sorted, has no duplicates, and holds exactly
  the disks under the filesystem mounted on \<open>/boot\<close>, or on \<open>/\<close> when there is no \<open>/boot\<close>.
\<close>

theorem find_boot_devices_sorted_set:
  assumes "storage_env E st" and "find_boot_devices E w = Some (Inr xs, w')"
  shows "\<exists>i. boot_entry (mounts w) = Some i \<and> sorted xs \<and> distinct xs
    \<and> set xs = {x. underlies st (mdev i) x}"
proof -
  from assms(2) obtain i ds w1 where i: "boot_entry (mounts w) = Some i"
    and run: "find_base_devices (stack_left E) (mdev i) E w1 = Some (Inr ds, w')"
    and xs: "xs = dedup_from 1 (sort ds)" by (rule find_boot_devices_InrE)
  from xs have "xs = sorted_list_of_set (set ds)" by (simp only: dedup_sort_eq)
  then have "set xs = set ds" and "sorted xs" and "distinct xs" by simp_all
  with i find_base_devices_underlies [OF assms(1) run] show ?thesis by auto
qed

theorem find_boot_devices_sorted_set_witness:
  "\<exists>xs w'. find_boot_devices raid_env (start_world\<lparr>mounts := three_mounts\<rparr>) = Some (Inr xs, w')
     \<and> sorted xs \<and> distinct xs"
proof -
  let ?w = "start_world\<lparr>mounts := three_mounts\<rparr>"
  have "map_option fst (find_boot_devices raid_env ?w) = Some (Inr [''/dev/sda''])"
    by code_simp
  then obtain w' where run: "find_boot_devices raid_env ?w = Some (Inr [''/dev/sda''], w')" by auto
  from find_boot_devices_sorted_set [OF raid_env_storage this] run show ?thesis by blast
qed

end
