(* ===== verification/Serial.thy ===== *)
theory Serial
  imports Fstab PyNum
begin

text \<open>
  The serial console: \<open>get_serial_parms\<close> parses the value of a \<open>console=\<close> kernel argument,
  \<open>set_grub_serial\<close> and \<open>set_inittab\<close> write it into the installed system.
\<close>

section \<open>Parsing\<close>

text \<open>\<open>(unit, speed, parity, word, stop)\<close>\<close>

type_synonym serial_parms = "string \<times> string \<times> string \<times> string \<times> string"

definition parse_serial_opts :: "string \<Rightarrow> string \<times> string \<times> string \<times> string" where
  "parse_serial_opts w =
     (let i = length (takeWhile is_digit w);
          e = length w;
          speed = take i w;
          (parity, i) =
            (if i < e then
               (if w ! i = CHR ''e'' then ''even'' else if w ! i = CHR ''o'' then ''odd'' else ''no'',
                i + 1)
             else (''no'', i));
          (word, i) = (if i < e then ([w ! i], i + 1) else (''8'', i));
          stop = (if i < e then [w ! i] else ''1'')
      in (speed, parity, word, stop))"

definition get_serial_parms :: "string \<Rightarrow> serial_parms option" where
  "get_serial_parms console =
     (if \<not> startswith console ''ttyS'' then None
      else
        let l = split_on (CHR '','') console;
            (speed, parity, word, stop) =
              (if length l > 1 then parse_serial_opts (l ! 1) else (''9600'', ''no'', ''8'', ''1''));
            unit = drop 4 (l ! 0)
        in Some (unit, speed, parity, word, stop))"

section \<open>Writing\<close>

definition grub_dir :: "bool \<Rightarrow> string" where
  "grub_dir efi = (if efi then mpref @ ''/etc/efi-grub.d'' else mpref @ ''/etc/grub.d'')"

text \<open>The mode is \<open>S_IRWXU | S_IRGRP | S_IXGRP | S_IROTH | S_IXOTH\<close>.\<close>

definition grub_serial_mode :: int where
  "grub_serial_mode = 7 * 64 + 4 * 8 + 1 * 8 + 4 + 1"

definition grub_serial_text :: "serial_parms \<Rightarrow> string" where
  "grub_serial_text p = (case p of (unit, speed, parity, word, stop) \<Rightarrow>
     ''echo '' @ [CHR 0x22] @ ''insmod serial'' @ [CHR 0x22, NL]
     @ ''echo '' @ [CHR 0x22] @ ''serial --unit='' @ unit @ '' --speed='' @ speed
       @ '' --parity='' @ parity @ '' --word='' @ word @ '' --stop='' @ stop @ [CHR 0x22, NL]
     @ ''echo '' @ [CHR 0x22] @ ''terminal_input serial'' @ [CHR 0x22, NL]
     @ ''echo '' @ [CHR 0x22] @ ''terminal_output serial'' @ [CHR 0x22, NL])"

definition set_grub_serial :: "serial_parms option \<Rightarrow> unit os" where
  "set_grub_serial parms = (case parms of None \<Rightarrow> skip | Some p \<Rightarrow>
     bnd (ask efi_system) (\<lambda>efi.
       let f = grub_dir efi @ ''/01_serial'' in block [
         fs_action (OpenW f),
         act (WriteF f (grub_serial_text p)),
         act (CloseF f),
         fs_action (Chmod f grub_serial_mode)]))"

text \<open>The loop of \<open>set_inittab\<close>: copy the lines up to the first one that mentions a getty.\<close>

fun copy_until_getty :: "string \<Rightarrow> string list \<Rightarrow> unit os" where
  "copy_until_getty f [] = skip"
| "copy_until_getty f (l # ls) =
     (if contains l ''getty'' then skip
      else andthen (act (WriteF f l)) (copy_until_getty f ls))"

definition serial_getty :: "serial_parms \<Rightarrow> string" where
  "serial_getty p = (case p of (unit, speed, parity, word, stop) \<Rightarrow>
     ''s'' @ unit @ '':2345:respawn:/sbin/getty ttyS'' @ unit @ '' '' @ speed @ '' vt100'' @ [NL])"

definition console_getty :: "nat \<Rightarrow> string" where
  "console_getty i =
     ''t'' @ str_of_nat i @ '':2345:respawn:/sbin/getty tty'' @ str_of_nat i @ '' 38400 linux'' @ [NL]"

definition set_inittab :: "serial_parms option \<Rightarrow> unit os" where
  "set_inittab parms =
     (let inittab = mpref @ ''/etc/inittab''; tmp = mpref @ ''/etc/inittab.tmp'' in
      bnd (open_read inittab) (\<lambda>txt. block [
        fs_action (OpenW tmp),
        copy_until_getty tmp (file_lines txt),
        (case parms of
           Some p \<Rightarrow> act (WriteF tmp (serial_getty p))
         | None \<Rightarrow> for_each [1, 2, 3, 4] (\<lambda>i. act (WriteF tmp (console_getty i)))),
        act (CloseF tmp),
        fs_action (Rename tmp inittab)]))"

section \<open>What the operations keep, and that they end\<close>

lemma returns_set_grub_serial [returns_rules]: "returns (set_grub_serial p)"
  unfolding set_grub_serial_def Let_def by (intro returns_rules)

lemma returns_copy_until_getty [returns_rules]: "returns (copy_until_getty f ls)"
  by (induction ls) (auto intro!: returns_rules)

lemma returns_set_inittab [returns_rules]: "returns (set_inittab p)"
  unfolding set_inittab_def Let_def by (intro returns_rules)

context harmless_contract
begin

lemma keeps_set_grub_serial [keeps_rules]: "keeps P (set_grub_serial p)"
  unfolding set_grub_serial_def Let_def by (intro keeps_rules harmless_ok) simp_all

lemma keeps_copy_until_getty [keeps_rules]: "keeps P (copy_until_getty f ls)"
  by (induction ls) (auto intro!: keeps_rules harmless_ok)

lemma keeps_set_inittab [keeps_rules]: "keeps P (set_inittab p)"
  unfolding set_inittab_def Let_def by (intro keeps_rules harmless_ok) simp_all

end

section \<open>The data written to a file\<close>

fun written :: "string \<Rightarrow> event list \<Rightarrow> string" where
  "written f [] = []"
| "written f (WriteF g d # es) = (if f = g then d @ written f es else written f es)"
| "written f (e # es) = written f es"

lemma written_append: "written f (es @ fs) = written f es @ written f fs"
  by (induction f es rule: written.induct) auto

lemma logs_copy_until_getty:
  "logs (copy_until_getty f ls) (map (WriteF f) (takeWhile (\<lambda>l. \<not> contains l ''getty'') ls))"
proof (induction ls)
  case Nil
  show ?case by (simp add: logs_skip)
next
  case (Cons l ls)
  show ?case
  proof (cases "contains l ''getty''")
    case True
    then show ?thesis by (simp add: logs_skip)
  next
    case False
    with logs_andthen [OF logs_act Cons.IH, of "WriteF f l"] show ?thesis by simp
  qed
qed

lemma written_map_WriteF: "written f (map (WriteF f) ds) = concat ds"
  by (induction ds) simp_all

definition getty_lines :: "serial_parms option \<Rightarrow> string list" where
  "getty_lines parms =
     (case parms of Some p \<Rightarrow> [serial_getty p] | None \<Rightarrow> map console_getty [1, 2, 3, 4])"

lemma set_inittab_log:
  assumes "set_inittab parms E w = Some (Inr x, w')"
  obtains c where "read_file E (trace w) ''/t/etc/inittab'' = Inr c"
    and "trace w' = trace w @ [OpenR ''/t/etc/inittab'', OpenW ''/t/etc/inittab.tmp'']
      @ map (WriteF ''/t/etc/inittab.tmp'')
          (takeWhile (\<lambda>l. \<not> contains l ''getty'') (file_lines c) @ getty_lines parms)
      @ [CloseF ''/t/etc/inittab.tmp'', Rename ''/t/etc/inittab.tmp'' ''/t/etc/inittab'']"
proof -
  let ?tmp = "''/t/etc/inittab.tmp''"
  have getty: "logs (case parms of Some p \<Rightarrow> act (WriteF ?tmp (serial_getty p))
      | None \<Rightarrow> for_each [1, 2, 3, 4] (\<lambda>i. act (WriteF ?tmp (console_getty i))))
      (map (WriteF ?tmp) (getty_lines parms))"
  proof (cases parms)
    case None
    have "logs (for_each [1, 2, 3, 4] (\<lambda>i. act (WriteF ?tmp (console_getty i))))
        (concat (map (\<lambda>i. [WriteF ?tmp (console_getty i)]) [1, 2, 3, 4]))"
      by (rule logs_for_each) (rule logs_act)
    with None show ?thesis by (simp add: getty_lines_def)
  qed (simp add: getty_lines_def logs_act)
  from assms obtain c w1 where "open_read ''/t/etc/inittab'' E w = Some (Inr c, w1)"
    and rest: "block [
        fs_action (OpenW ?tmp),
        copy_until_getty ?tmp (file_lines c),
        (case parms of
           Some p \<Rightarrow> act (WriteF ?tmp (serial_getty p))
         | None \<Rightarrow> for_each [1, 2, 3, 4] (\<lambda>i. act (WriteF ?tmp (console_getty i)))),
        act (CloseF ?tmp),
        fs_action (Rename ?tmp ''/t/etc/inittab'')] E w1 = Some (Inr x, w')" (is "block ?ms E w1 = _")
    unfolding set_inittab_def Let_def mpref_def append.simps by (rule bnd_InrE)
  then have c: "read_file E (trace w) ''/t/etc/inittab'' = Inr c"
    and w1: "trace w1 = trace w @ [OpenR ''/t/etc/inittab'']"
    by (auto simp: open_read_def comp_simps)
  have "logs (block ?ms) ([OpenW ?tmp]
      @ map (WriteF ?tmp) (takeWhile (\<lambda>l. \<not> contains l ''getty'') (file_lines c))
      @ map (WriteF ?tmp) (getty_lines parms) @ [CloseF ?tmp]
      @ [Rename ?tmp ''/t/etc/inittab''] @ [])"
    by (intro logs_block_Cons logs_block_Nil logs_copy_until_getty getty logs_act logs_prim)
  from logsD [OF this, OF rest] w1 c show thesis by (intro that) simp_all
qed

section \<open>Properties\<close>

text \<open>
  The value of a \<open>console=\<close> argument as the kernel documents it,
  \<open>ttyS<unit>[,<speed>[<parity>[<bits>[<flow>]]]]\<close>: after the number of data bits comes an \<open>r\<close> for
  flow control. The options are the speed and what follows it.
\<close>

definition console_arg :: "string \<Rightarrow> (string \<times> string) option \<Rightarrow> string" where
  "console_arg unit opts =
     ''ttyS'' @ unit @ (case opts of None \<Rightarrow> [] | Some (speed, tail) \<Rightarrow> '','' @ speed @ tail)"

definition parity_name :: "char \<Rightarrow> string" where
  "parity_name p = (if p = CHR ''e'' then ''even'' else if p = CHR ''o'' then ''odd'' else ''no'')"

lemma takeWhile_speed:
  assumes "list_all is_digit speed" and "tail = [] \<or> \<not> is_digit (hd tail)"
  shows "takeWhile is_digit (speed @ tail) = speed"
  using assms by (cases tail) (auto simp: list_all_iff takeWhile_tail)

lemma parse_serial_opts_append:
  assumes "list_all is_digit speed" and "tail = [] \<or> \<not> is_digit (hd tail)"
  shows "parse_serial_opts (speed @ tail) = (speed,
    (case tail of [] \<Rightarrow> ''no'' | p # _ \<Rightarrow> parity_name p),
    (case tail of _ # d # _ \<Rightarrow> [d] | _ \<Rightarrow> ''8''),
    (case tail of _ # _ # t # _ \<Rightarrow> [t] | _ \<Rightarrow> ''1''))"
proof -
  have tw: "length (takeWhile is_digit (speed @ tail)) = length speed"
    by (simp only: takeWhile_speed [OF assms])
  show ?thesis
  proof (cases tail)
    case Nil
    with tw show ?thesis by (simp add: parse_serial_opts_def Let_def)
  next
    case (Cons p ds)
    show ?thesis
    proof (cases ds)
      case Nil
      with tw Cons show ?thesis by (simp add: parse_serial_opts_def parity_name_def Let_def nth_append)
    next
      case (Cons d ts)
      with tw \<open>tail = p # ds\<close> show ?thesis
        by (cases ts) (simp_all add: parse_serial_opts_def parity_name_def Let_def nth_append)
    qed
  qed
qed

lemma get_serial_parms_bare:
  "CHR '','' \<notin> set unit \<Longrightarrow>
     get_serial_parms (console_arg unit None) = Some (unit, ''9600'', ''no'', ''8'', ''1'')"
  by (simp add: get_serial_parms_def console_arg_def split_on_no_sep)

lemma get_serial_parms_opts:
  assumes "CHR '','' \<notin> set unit" and "list_all is_digit speed" and "tail = [] \<or> \<not> is_digit (hd tail)"
    and "CHR '','' \<notin> set tail"
  shows "get_serial_parms (console_arg unit (Some (speed, tail))) = Some (unit, speed,
    (case tail of [] \<Rightarrow> ''no'' | p # _ \<Rightarrow> parity_name p),
    (case tail of _ # b # _ \<Rightarrow> [b] | _ \<Rightarrow> ''8''),
    (case tail of _ # _ # f # _ \<Rightarrow> [f] | _ \<Rightarrow> ''1''))"
proof -
  have "CHR '','' \<notin> set speed" using assms(2) by (auto simp: list_all_iff is_digit_def)
  then have "split_on (CHR '','') (console_arg unit (Some (speed, tail))) = [''ttyS'' @ unit, speed @ tail]"
    using split_on_append [of "CHR '',''" "''ttyS'' @ unit" "speed @ tail"] assms(1,4)
    by (simp add: console_arg_def split_on_no_sep)
  moreover have "startswith (console_arg unit (Some (speed, tail))) ''ttyS''"
    by (simp add: console_arg_def)
  ultimately have "get_serial_parms (console_arg unit (Some (speed, tail)))
      = Some (unit, parse_serial_opts (speed @ tail))"
    by (simp add: get_serial_parms_def Let_def split_beta)
  then show ?thesis by (simp only: parse_serial_opts_append [OF assms(2,3)])
qed

text \<open>
  C16: \<open>get_serial_parms\<close> reads unit, speed, parity and data bits from every \<open>ttyS\<close> console in the
  kernel's format, with the defaults 9600, no parity and 8 for the parts left out; it gives one stop
  bit, except when the console has the flow-control character, which it takes for the stop bits. A
  console of another name has no parameters.
\<close>

theorem get_serial_parms_fields:
  assumes "CHR '','' \<notin> set unit" and "list_all is_digit speed" and "\<not> is_digit p"
    and "CHR '','' \<notin> {p, b, f}"
  shows "get_serial_parms (console_arg unit None) = Some (unit, ''9600'', ''no'', ''8'', ''1'')
    \<and> get_serial_parms (console_arg unit (Some (speed, []))) = Some (unit, speed, ''no'', ''8'', ''1'')
    \<and> get_serial_parms (console_arg unit (Some (speed, [p]))) = Some (unit, speed, parity_name p, ''8'', ''1'')
    \<and> get_serial_parms (console_arg unit (Some (speed, [p, b]))) = Some (unit, speed, parity_name p, [b], ''1'')
    \<and> get_serial_parms (console_arg unit (Some (speed, [p, b, f]))) = Some (unit, speed, parity_name p, [b], [f])
    \<and> (\<forall>c. \<not> startswith c ''ttyS'' \<longrightarrow> get_serial_parms c = None)"
  using assms by (simp add: get_serial_parms_bare get_serial_parms_opts) (simp add: get_serial_parms_def)

theorem get_serial_parms_fields_witness:
  "get_serial_parms ''ttyS1,115200e7'' = Some (''1'', ''115200'', ''even'', ''7'', ''1'')
    \<and> get_serial_parms ''ttyS1,115200e7r'' = Some (''1'', ''115200'', ''even'', ''7'', ''r'')
    \<and> get_serial_parms ''ttyS1'' = Some (''1'', ''9600'', ''no'', ''8'', ''1'')
    \<and> get_serial_parms ''tty0'' = None"
proof -
  have "startswith ''tty0'' ''ttyS'' = False" by code_simp
  with get_serial_parms_fields [of "''1''" "''115200''" "CHR ''e''" "CHR ''7''" "CHR ''r''"] show ?thesis
    by (simp add: console_arg_def is_digit_def parity_name_def)
qed

text \<open>
  C17: When \<open>set_inittab\<close> returns, it has renamed onto \<open>/etc/inittab\<close> of the installed system a file
  that holds the lines of the old one up to the first that mentions a getty, followed by the
  line of the serial console, or by the four lines of the text consoles without one.
\<close>

theorem set_inittab_contents:
  assumes "set_inittab parms E w = Some (Inr x, w')"
  shows "\<exists>c es. read_file E (trace w) ''/t/etc/inittab'' = Inr c \<and> trace w' = trace w @ es
    \<and> last es = Rename ''/t/etc/inittab.tmp'' ''/t/etc/inittab''
    \<and> written ''/t/etc/inittab.tmp'' es =
        concat (takeWhile (\<lambda>l. \<not> contains l ''getty'') (file_lines c)) @ concat (getty_lines parms)"
proof -
  let ?f = "''/t/etc/inittab.tmp''"
  from assms obtain c where c: "read_file E (trace w) ''/t/etc/inittab'' = Inr c"
    and tr: "trace w' = trace w @ [OpenR ''/t/etc/inittab'', OpenW ?f]
      @ map (WriteF ?f) (takeWhile (\<lambda>l. \<not> contains l ''getty'') (file_lines c) @ getty_lines parms)
      @ [CloseF ?f, Rename ?f ''/t/etc/inittab'']" (is "_ = _ @ ?es")
    by (rule set_inittab_log)
  have "written ?f ?es = concat (takeWhile (\<lambda>l. \<not> contains l ''getty'') (file_lines c) @ getty_lines parms)"
    by (simp add: written_append written_map_WriteF del: map_append concat_append)
  with c tr show ?thesis by (intro exI [of _ c] exI [of _ ?es]) simp
qed

definition inittab_env :: env where
  "inittab_env = plain_env\<lparr>read_file := (\<lambda>_ f. if f = ''/t/etc/inittab''
     then Inr (''id:5:initdefault:'' @ [NL] @ ''1:2345:respawn:/sbin/getty 38400 tty1'' @ [NL])
     else Inl OSError)\<rparr>"

theorem set_inittab_contents_witness:
  "\<exists>w'. set_inittab (Some (''0'', ''115200'', ''no'', ''8'', ''1'')) inittab_env start_world = Some (Inr (), w')
    \<and> written ''/t/etc/inittab.tmp'' (trace w') =
        ''id:5:initdefault:'' @ [NL] @ ''s0:2345:respawn:/sbin/getty ttyS0 115200 vt100'' @ [NL]"
proof -
  let ?p = "Some (''0'', ''115200'', ''no'', ''8'', ''1'')"
  have "map_option fst (set_inittab ?p inittab_env start_world) = Some (Inr ())" by code_simp
  then obtain w' where run: "set_inittab ?p inittab_env start_world = Some (Inr (), w')" by auto
  from set_inittab_contents [OF run] obtain c es where
    c: "read_file inittab_env (trace start_world) ''/t/etc/inittab'' = Inr c"
    and tr: "trace w' = trace start_world @ es"
    and wr: "written ''/t/etc/inittab.tmp'' es = concat (takeWhile (\<lambda>l. \<not> contains l ''getty'')
      (file_lines c)) @ concat (getty_lines ?p)" by blast
  from c have "c = ''id:5:initdefault:'' @ [NL] @ ''1:2345:respawn:/sbin/getty 38400 tty1'' @ [NL]"
    by (simp add: inittab_env_def plain_env_def)
  then have "concat (takeWhile (\<lambda>l. \<not> contains l ''getty'') (file_lines c)) =
    ''id:5:initdefault:'' @ [NL]" by simp
  with wr tr run show ?thesis by (simp add: getty_lines_def serial_getty_def start_world_def)
qed

end
