(* ===== verification/ImageInstall.thy ===== *)
theory ImageInstall
  imports FstabFacts Serial
begin

text \<open>
  \<open>Installer.install\<close>, which unpacks the image and configures the installed system, and
  \<open>Installer.setup_from_existing_install\<close>, which adopts a system installed before.
\<close>

section \<open>install\<close>

definition data_string :: "pydata \<Rightarrow> string" where
  "data_string d = (case d of Str s \<Rightarrow> s | Bytes s \<Rightarrow> s)"

text \<open>The progress loop: a star for every tenth line of the tar listing.\<close>

fun tar_progress :: "nat \<Rightarrow> 'l list \<Rightarrow> unit os" where
  "tar_progress count [] = skip"
| "tar_progress count (l # ls) =
     (if count + 1 \<ge> 10 then andthen (write_out ''*'') (tar_progress 0 ls)
      else tar_progress (count + 1) ls)"

definition tar_cmd :: "string list" where
  "tar_cmd = [''tar'', ''-C'', mpref, ''-xvzf'', ''/to_install.tar.gz'']"

text \<open>
  Enabling the check of the root filesystem. The dummy loop runs once; \<open>break\<close> leaves it, and
  a bare \<open>except\<close> catches everything.
\<close>

definition rcs_line :: "string \<Rightarrow> string" where
  "rcs_line l =
     (if startswith l ''ENABLE_ROOTFS_FSCK='' then ''ENABLE_ROOTFS_FSCK=yes'' @ [NL] else l)"

definition try_open_read :: "string \<Rightarrow> string option os" where
  "try_open_read f = catch (bnd (open_read f) (\<lambda>c. ret (Some c))) (\<lambda>_. ret None)"

definition try_open_write :: "string \<Rightarrow> bool os" where
  "try_open_write f = catch (andthen (fs_action (OpenW f)) (ret True)) (\<lambda>_. ret False)"

definition enable_rootfs_fsck :: "unit os" where
  "enable_rootfs_fsck =
     (let rcs = mpref @ ''/etc/default/rcS''; tmp = mpref @ ''/tmp/rcS'' in
      bnd (try_open_read rcs) (\<lambda>fin. case fin of
        None \<Rightarrow> skip
      | Some txt \<Rightarrow>
          bnd (try_open_write tmp) (\<lambda>fout.
            if \<not> fout then skip
            else ensure
              (andthen (for_each (file_lines txt) (\<lambda>l. act (WriteF tmp (rcs_line l))))
                (callu [''mv'', tmp, rcs]))
              (act (CloseF tmp)))))"

text \<open>The console of the running kernel: the last \<open>console=\<close> word of its command line.\<close>

fun scan_console :: "string list \<Rightarrow> string option \<times> serial_parms option
    \<Rightarrow> string option \<times> serial_parms option" where
  "scan_console [] acc = acc"
| "scan_console (w # ws) acc =
     (if startswith w ''console='' then scan_console ws (Some w, get_serial_parms (drop 8 w))
      else scan_console ws acc)"

definition console_of_cmdline :: "string \<Rightarrow> string option \<times> serial_parms option" where
  "console_of_cmdline txt =
     foldl (\<lambda>acc l. scan_console (words l) acc) (None, None) (file_lines txt)"

definition find_console :: "(string option \<times> serial_parms option) os" where
  "find_console =
     bnd (try_open_read ''/proc/cmdline'') (\<lambda>fin. case fin of
       None \<Rightarrow> ret (None, None)
     | Some txt \<Rightarrow> ret (console_of_cmdline txt))"

definition grub_cmdline_text :: "string \<Rightarrow> string" where
  "grub_cmdline_text console =
     [NL] @ ''GRUB_CMDLINE_LINUX='' @ [CHR 0x27] @ console @ [CHR 0x27, NL]"

definition set_grub_console :: "string option \<Rightarrow> serial_parms option \<Rightarrow> unit os" where
  "set_grub_console console serparms =
     bnd (ask efi_system) (\<lambda>efi. case console of
       None \<Rightarrow> skip
     | Some c \<Rightarrow>
         bnd (test (Exists (grub_dir efi))) (\<lambda>there.
           if \<not> there then skip
           else
             let f = (if efi then mpref @ ''/etc/default/efi-grub'' else mpref @ ''/etc/default/grub'')
             in block [
               fs_action (OpenW f),
               act (WriteF f (grub_cmdline_text c)),
               act (CloseF f),
               (case serparms of None \<Rightarrow> skip | Some p \<Rightarrow> set_grub_serial (Some p))]))"

definition configure_files :: "unit os" where
  "configure_files = block [
     callu [''cp'', ''/tmp/fstab'', mpref @ ''/etc/fstab''],
     enable_rootfs_fsck,
     bnd find_console (\<lambda>(console, serparms). block [
       set_grub_console console serparms,
       set_inittab serparms])]"

definition configure_image :: "unit os" where
  "configure_image = andthen configure_files (modify_st (\<lambda>w. w\<lparr>installed := True\<rparr>))"

text \<open>Unpacking: \<open>/dev\<close> is unmounted around the untar. The value is tar's return code.\<close>

definition unpack_image :: "int os" where
  "unpack_image =
     andthen (unmount ''/dev'')
    (andthen (fs_action (OpenW ''/tmp/tar-error''))
    (bnd (popen tar_cmd) (\<lambda>(rc, out, err).
     andthen (block [
       tar_progress 0 (file_lines (data_string out)),
       act (CloseF ''/tmp/tar-error''),
       print [],
       ignore (mount ''/dev'' ''none'' (Some ''tmpfs'') None),
       copy_dev])
     (ret rc))))"

definition install :: "unit os" where
  "install =
     bnd (get_st mounts) (\<lambda>ms.
       if ms = [] then
         andthen (print ''You must first partition your system before installing'')
           (raise InstallerException)
       else
         bnd unpack_image (\<lambda>rc.
           if rc \<noteq> 0 then
             andthen (print ''Errors processing the tar archive:'')
               (callu [''cat'', ''/tmp/tar-error''])
           else configure_image))"

section \<open>setup_from_existing_install\<close>

definition ask_root :: "string os" where
  "ask_root =
     bnd (get_st alldevs) (\<lambda>devs.
     andthen (print ''Enter the device holding the root partition.  Options are:'')
    (andthen (for_each devs (\<lambda>d. print (''  '' @ d)))
    (bnd (read_input ''Please enter the device: '') (\<lambda>s.
       let d = strip s in
       if d \<notin> set devs then
         andthen (print (d @ '' is not in the list, please enter a valid device''))
           (raise InstallerException)
       else ret d))))"

definition restart_storage :: "unit os" where
  "restart_storage = block [
     ignore (call_cmd (TupleC [''vgchange'', ''-a'', ''n'']) True),
     ignore (call_cmd (TupleC [''mdadm'', ''--stop'', ''--scan'']) True),
     ignore (call_cmd (TupleC [''mdadm'', ''--assemble'', ''--scan'', ''--run'']) True),
     ignore (call_cmd (TupleC [''vgscan'']) True),
     ignore (call_cmd (TupleC [''vgchange'', ''-a'', ''y'']) True)]"

definition setup_from_existing_install :: "string option \<Rightarrow> unit os" where
  "setup_from_existing_install root0 =
     andthen unmount_all
    (bnd (case root0 of None \<Rightarrow> ask_root | Some r \<Rightarrow> if r = [] then ask_root else ret r) (\<lambda>root.
     bnd (mount ''/'' root None None) (\<lambda>rc.
       if rc \<noteq> 0 then
         andthen (print (''Unable to mount '' @ root)) (raise InstallerException)
       else
         bnd (call [''cp'', mpref @ ''/etc/fstab'', ''/tmp/fstab'']) (\<lambda>rc. block [
           callu [''cp'', mpref @ ''/etc/mdadm.conf'', ''/tmp/mdadm.conf''],
           unmount ''/'',
           whenc (rc \<noteq> 0) (andthen
             (print (''No /etc/fstab on '' @ root @ '', not a valid root partition''))
             (raise InstallerException)),
           modify_st (\<lambda>w. w\<lparr>installed := True\<rparr>),
           reread_fstab ''/tmp/fstab'',
           restart_storage,
           mount_all]))))"

section \<open>What the operations keep, and that they end\<close>

lemma returns_tar_progress [returns_rules]: "returns (tar_progress n ls)"
  by (induction n ls rule: tar_progress.induct) (auto intro!: returns_rules)

lemma returns_enable_rootfs_fsck [returns_rules]: "returns enable_rootfs_fsck"
  unfolding enable_rootfs_fsck_def try_open_read_def try_open_write_def Let_def
  by (intro returns_rules)

lemma returns_find_console [returns_rules]: "returns find_console"
  unfolding find_console_def try_open_read_def by (intro returns_rules)

lemma returns_set_grub_console [returns_rules]: "returns (set_grub_console c p)"
  unfolding set_grub_console_def Let_def by (intro returns_rules)

lemma returns_configure_image [returns_rules]: "returns configure_image"
  unfolding configure_image_def configure_files_def by (intro returns_rules)

lemma returns_unpack_image [returns_rules]: "returns unpack_image"
  unfolding unpack_image_def by (intro returns_rules)

lemma returns_install [returns_rules]: "returns install"
  unfolding install_def by (intro returns_rules)

lemma returns_setup [returns_rules]: "returns (setup_from_existing_install r)"
  unfolding setup_from_existing_install_def ask_root_def restart_storage_def Let_def
  by (intro returns_rules)

context harmless_contract
begin

lemma keeps_tar_progress [keeps_rules]: "keeps P (tar_progress n ls)"
  by (induction n ls rule: tar_progress.induct) (auto intro!: keeps_rules harmless_ok)

lemma keeps_try_open_read [keeps_rules]: "keeps P (try_open_read f)"
  unfolding try_open_read_def by (intro keeps_rules harmless_ok) simp_all

lemma keeps_try_open_write [keeps_rules]: "keeps P (try_open_write f)"
  unfolding try_open_write_def by (intro keeps_rules harmless_ok) simp_all

lemma keeps_enable_rootfs_fsck [keeps_rules]: "keeps P enable_rootfs_fsck"
  unfolding enable_rootfs_fsck_def Let_def by (intro keeps_rules harmless_ok) simp_all

lemma keeps_find_console [keeps_rules]: "keeps P find_console"
  unfolding find_console_def by (intro keeps_rules)

lemma keeps_set_grub_console [keeps_rules]: "keeps P (set_grub_console c p)"
  unfolding set_grub_console_def Let_def by (intro keeps_rules harmless_ok) simp_all

lemma keeps_unpack_image [keeps_rules]: "keeps P unpack_image"
  unfolding unpack_image_def tar_cmd_def by (intro keeps_rules harmless_ok) simp_all

lemma keeps_restart_storage [keeps_rules]: "keeps P restart_storage"
  unfolding restart_storage_def by (intro keeps_rules harmless_ok) simp_all

lemma keeps_ask_root [keeps_rules]: "keeps P ask_root"
  unfolding ask_root_def Let_def by (intro keeps_rules harmless_ok) simp_all

lemma keeps_configure_files [keeps_rules]: "keeps P configure_files"
  unfolding configure_files_def by (intro keeps_rules harmless_ok) simp_all

end

context field_contract
begin

lemma keeps_configure_image [keeps_rules]: "keeps P configure_image"
  unfolding configure_image_def by (intro keeps_rules keeps_modify_st set_installed)

lemma keeps_install [keeps_rules]: "keeps P install"
  unfolding install_def by (intro keeps_rules harmless_ok) simp_all

end

context mount_contract
begin

lemma keeps_setup [keeps_rules]: "keeps P (setup_from_existing_install r)"
  unfolding setup_from_existing_install_def
  by (intro keeps_rules harmless_ok keeps_modify_st set_installed) simp_all

end

end
