(* ===== verification/ImageFacts.thy ===== *)
theory ImageFacts
  imports ImageInstall
begin

text \<open>
  The properties of \<open>install\<close>: when the system counts as installed, what happens when tar fails,
  which console is taken from the kernel's command line, and how the file that enables the
  filesystem check is written.
\<close>

section \<open>When the system counts as installed\<close>

definition no_write :: "event \<Rightarrow> bool" where
  "no_write e \<longleftrightarrow> (\<forall>f d. e \<noteq> WriteF f d)"

lemma no_write_simps [simp]:
  "no_write (Call a)" "no_write (Popen a)" "no_write (OpenR f)" "no_write (OpenW f)"
  "no_write (CloseF f)" "no_write (Out s)" "no_write (Shell s)" "\<not> no_write (WriteF f d)"
  by (simp_all add: no_write_def)

lemma keeps_no_write_progress: "keeps (only no_write w0) (tar_progress n ls)"
  by (induction n ls rule: tar_progress.induct) (auto intro!: keeps_rules)

lemma keeps_no_write_unpack: "keeps (only no_write w0) unpack_image"
  unfolding unpack_image_def unmount_def mount_def copy_dev_def
  by (intro keeps_rules keeps_no_write_progress) simp_all

text \<open>Whatever only acts on the outside leaves the installer's \<open>installed\<close> field alone.\<close>

interpretation installed_kept: harmless_contract "\<lambda>_. True" "\<lambda>E w. installed w = b" for b
  by unfold_locales simp_all

lemma configure_files_installed: "configure_files E w = Some (q, w1) \<Longrightarrow> installed w1 = installed w"
  using keepsD [OF installed_kept.keeps_configure_files] by blast

lemma configure_image_installed:
  assumes "configure_image E w = Some (r, w')"
  shows "installed w' = (if r = Inr () then True else installed w)"
  using assms unfolding configure_image_def
proof (cases rule: andthenE)
  case (raised e)
  then show ?thesis by (simp add: configure_files_installed)
next
  case (returned x w1)
  then show ?thesis by (auto simp: modify_st_app)
qed

lemma unpack_image_rc:
  assumes "\<And>h. run E h tar_cmd = Inr (rc, out, err)" and "unpack_image E w = Some (Inr n, w')"
  shows "n = rc"
proof -
  let ?k = "\<lambda>out. block [tar_progress 0 (file_lines (data_string out)),
    act (CloseF ''/tmp/tar-error''), print [],
    ignore (mount ''/dev'' ''none'' (Some ''tmpfs'') None), copy_dev]"
  let ?t = "bnd (popen tar_cmd) (\<lambda>(rc, out, err). andthen (?k out) (ret rc))"
  from assms(2) obtain w1 where "?t E w1 = Some (Inr n, w')"
    unfolding unpack_image_def by (elim andthen_InrE)
  with assms(1) have "andthen (?k (pipe_data E out)) (ret rc) E (emit (Popen tar_cmd) w1) = Some (Inr n, w')"
    by (simp add: bnd_app popen_app)
  then show ?thesis by (rule andthen_InrE) (simp add: ret_app)
qed

text \<open>
  C18: \<open>install\<close> marks the system as installed only when tar succeeded and every later step of the
  configuration went through: an exception on the way, or a failing tar, leaves the mark as it
  was. A failing tar leaves the configuration alone as well: nothing is written to any file.
\<close>

theorem install_marks_installed:
  assumes "mounts w \<noteq> []" and "\<And>h. run E h tar_cmd = Inr (rc, out, err)"
    and "install E w = Some (r, w')"
  shows "installed w' = (if r = Inr () \<and> rc = 0 then True else installed w)
    \<and> (rc \<noteq> 0 \<longrightarrow> since no_write w E w')"
proof -
  from assms(1,3) obtain q w1 where m: "unpack_image E w = Some (q, w1)"
    by (auto simp: install_def comp_simps split: option.splits)
  have only: "only no_write w E w1" by (rule keepsD [OF keeps_no_write_unpack _ m]) simp
  show ?thesis
  proof (cases q)
    case (Inl e)
    with assms m only show ?thesis by (auto simp: install_def comp_simps only_def)
  next
    case (Inr n)
    with m assms(2) have n: "n = rc" by (auto intro: unpack_image_rc)
    show ?thesis
    proof (cases "rc = 0")
      case True
      with assms(1,3) m Inr n have "configure_image E w1 = Some (r, w')"
        by (simp add: install_def comp_simps)
      with only True show ?thesis by (auto simp: only_def dest: configure_image_installed)
    next
      case False
      let ?k = "andthen (print ''Errors processing the tar archive:'') (callu [''cat'', ''/tmp/tar-error''])"
      from assms(1,3) m Inr n False have "?k E w1 = Some (r, w')"
        by (simp add: install_def comp_simps)
      moreover have "keeps (only no_write w) ?k" by (intro keeps_rules) simp_all
      ultimately have "only no_write w E w'" using only by (blast dest: keepsD)
      with False show ?thesis by (simp add: only_def)
    qed
  qed
qed

definition broken_tar_env :: env where
  "broken_tar_env = plain_env\<lparr>run := (\<lambda>_ argv. if argv = tar_cmd then Inr (2, [], []) else Inr (0, [], []))\<rparr>"

theorem install_marks_installed_witness:
  "\<exists>r w'. install broken_tar_env (start_world\<lparr>mounts := three_mounts\<rparr>) = Some (r, w') \<and> \<not> installed w'"
proof -
  let ?w = "start_world\<lparr>mounts := three_mounts\<rparr>"
  obtain r w' where run: "install broken_tar_env ?w = Some (r, w')"
    using returnsD [OF returns_install] by blast
  have "\<not> installed w'"
    using install_marks_installed [OF _ _ run, of 2 "[]" "[]"]
    by (simp add: three_mounts_def broken_tar_env_def start_world_def)
  with run show ?thesis by blast
qed

section \<open>The console\<close>

lemma scan_console_last:
  "scan_console ws acc = (case filter (\<lambda>w. startswith w ''console='') ws of
     [] \<Rightarrow> acc | cs \<Rightarrow> (Some (last cs), get_serial_parms (drop 8 (last cs))))"
  by (induction ws acc rule: scan_console.induct) (auto split: list.splits)

lemma foldl_scan_console:
  "foldl (\<lambda>acc l. scan_console (words l) acc) acc ls = scan_console (concat (map words ls)) acc"
proof -
  have app: "scan_console (us @ vs) a = scan_console vs (scan_console us a)" for us vs a
    by (induction us a rule: scan_console.induct) simp_all
  show ?thesis by (induction ls arbitrary: acc) (simp_all add: app)
qed

text \<open>
  The console of the installed system is the last \<open>console=\<close> word of the kernel's command
  line, with the serial parameters of that word; earlier consoles leave no trace.
\<close>

theorem console_is_last:
  "console_of_cmdline t =
    (case filter (\<lambda>w. startswith w ''console='') (concat (map words (file_lines t))) of
       [] \<Rightarrow> (None, None)
     | cs \<Rightarrow> (Some (last cs), get_serial_parms (drop 8 (last cs))))"
  unfolding console_of_cmdline_def foldl_scan_console by (rule scan_console_last)

section \<open>The filesystem check\<close>

text \<open>
  When its files can be opened, \<open>enable_rootfs_fsck\<close> writes the lines of \<open>rcS\<close> with the
  \<open>ENABLE_ROOTFS_FSCK=\<close> line replaced, and moves the new file over the old one while it is still
  open: the \<open>mv\<close> comes before the \<open>close()\<close> that flushes the buffered lines.
\<close>

theorem rcs_moved_before_close:
  assumes "read_file E (trace w) ''/t/etc/default/rcS'' = Inr c"
    and "\<And>h. fs_op E h (OpenW ''/t/tmp/rcS'') = None" and "starts_all E"
  shows "\<exists>w'. enable_rootfs_fsck E w = Some (Inr (), w')
    \<and> trace w' = trace w @ [OpenR ''/t/etc/default/rcS'', OpenW ''/t/tmp/rcS'']
      @ map (\<lambda>l. WriteF ''/t/tmp/rcS'' (rcs_line l)) (file_lines c)
      @ [Call [''mv'', ''/t/tmp/rcS'', ''/t/etc/default/rcS''], CloseF ''/t/tmp/rcS'']"
proof -
  let ?m = "andthen (for_each (file_lines c) (\<lambda>l. act (WriteF ''/t/tmp/rcS'' (rcs_line l))))
    (callu [''mv'', ''/t/tmp/rcS'', ''/t/etc/default/rcS''])"
  let ?w1 = "emit (OpenW ''/t/tmp/rcS'') (emit (OpenR ''/t/etc/default/rcS'') w)"
  have "completes E ?m" using assms(3) by (intro completes_rules completes_for_each)
  then obtain w2 where run: "?m E ?w1 = Some (Inr (), w2)" by (fastforce dest: completesD)
  have "logs ?m (concat (map (\<lambda>l. [WriteF ''/t/tmp/rcS'' (rcs_line l)]) (file_lines c))
      @ [Call [''mv'', ''/t/tmp/rcS'', ''/t/etc/default/rcS'']])"
    by (intro logs_rules logs_for_each)
  from logsD [OF this, OF run] have "trace w2 = trace ?w1
      @ map (\<lambda>l. WriteF ''/t/tmp/rcS'' (rcs_line l)) (file_lines c)
      @ [Call [''mv'', ''/t/tmp/rcS'', ''/t/etc/default/rcS'']]"
    by (simp add: concat_map_singleton)
  moreover have "enable_rootfs_fsck E w = ensure ?m (act (CloseF ''/t/tmp/rcS'')) E ?w1"
    unfolding enable_rootfs_fsck_def Let_def mpref_def append.simps
    using assms(1,2) by (simp add: try_open_read_def try_open_write_def open_read_def
        fs_action_def query_app bnd_app catch_app andthen_app ret_app)
  moreover have "ensure ?m (act (CloseF ''/t/tmp/rcS'')) E ?w1
      = Some (Inr (), emit (CloseF ''/t/tmp/rcS'') w2)"
    by (simp only: ensure_app run option.case prod.case sum.case act_app)
  ultimately show ?thesis by simp
qed

theorem rcs_moved_before_close_witness:
  "\<exists>w'. trace w' = [OpenR ''/t/etc/default/rcS'', OpenW ''/t/tmp/rcS'',
     WriteF ''/t/tmp/rcS'' (''ENABLE_ROOTFS_FSCK=yes'' @ [NL]),
     Call [''mv'', ''/t/tmp/rcS'', ''/t/etc/default/rcS''], CloseF ''/t/tmp/rcS'']
    \<and> enable_rootfs_fsck (plain_env\<lparr>read_file := \<lambda>_ _. Inr (''ENABLE_ROOTFS_FSCK=no'' @ [NL])\<rparr>)
        start_world = Some (Inr (), w')"
  using rcs_moved_before_close [of "plain_env\<lparr>read_file := \<lambda>_ _. Inr (''ENABLE_ROOTFS_FSCK=no'' @ [NL])\<rparr>"
      start_world "''ENABLE_ROOTFS_FSCK=no'' @ [NL]"]
  by (auto simp: plain_env_def starts_all_def start_world_def rcs_line_def)

end
