(* ===== verification/Grub.thy ===== *)
theory Grub
  imports ImageFacts
begin

text \<open>
  Installing the boot loader: \<open>_read_bootdevs\<close>, \<open>do_grub_bios\<close>, \<open>do_grub_efi\<close> and
  \<open>do_grub\<close>.
\<close>

section \<open>Choosing the devices\<close>

text \<open>The loop that checks the devices the user typed.\<close>

fun check_devices :: "string list \<Rightarrow> string list \<Rightarrow> unit os" where
  "check_devices basedevs [] = skip"
| "check_devices basedevs (i # is) =
     (if i \<notin> set basedevs then
        andthen (print (i @ '' is not in the list, please enter a valid device''))
          (raise InstallerException)
      else check_devices basedevs is)"

definition read_bootdevs :: "string list os" where
  "read_bootdevs =
     bnd find_boot_devices (\<lambda>bootdevs.
     andthen (block [
       write_out (''Boot devices for this system appear to be: '' @ join '' '' bootdevs),
       print [],
       print (''If the listed devices are correct, just press '' @ [CHR 0x27] @ ''enter'' @ [CHR 0x27]
         @ '' here''),
       print ''If not, enter the devices holding the /boot partition, separated by'',
       print ''spaces.  This is generally the device that holds /boot, or'',
       print ''if a RAID device is /boot, all the devices.  Options are:''])
    (bnd get_base_devs (\<lambda>basedevs.
     andthen (block [print (join '' '' basedevs), print []])
    (bnd (ensure
        (andthen (set_hook (Some (join '' '' bootdevs)))
          (read_input ''Please press enter or enter the device(s): ''))
        (set_hook None)) (\<lambda>s.
     let d = words (strip s) in
     andthen (check_devices basedevs d) (ret d))))))"

section \<open>BIOS\<close>

text \<open>
  The argument of \<open>do_grub\<close>: \<open>None\<close> asks the user, a string takes the devices under
  \<open>/boot\<close>, a list is used as it is.
\<close>

datatype bootdevs_arg = AskUser | DefaultList | DeviceList "string list"

definition regenerate_grub :: "string \<Rightarrow> string \<Rightarrow> string \<Rightarrow> unit os" where
  "regenerate_grub tool path cfg =
     bnd (test (Exists (mpref @ ''/usr/sbin/mv-re-grub''))) (\<lambda>re_grub.
       if re_grub then callu [''chroot'', mpref, ''mv-re-grub'']
       else bnd (test (Exists (mpref @ path))) (\<lambda>mkconfig.
         if mkconfig then callu [''chroot'', mpref, tool, ''-o'', cfg]
         else print ''***WARNING: Unable to configure grub on the target''))"

definition install_grub_on :: "string \<Rightarrow> unit os" where
  "install_grub_on i = block [
     print (''Installing grub on '' @ i),
     callu [''grub-install'', ''--root-directory='' @ mpref, i]]"

definition do_grub_bios :: "bootdevs_arg \<Rightarrow> unit os" where
  "do_grub_bios arg =
     bnd (case arg of
            DefaultList \<Rightarrow> find_boot_devices
          | AskUser \<Rightarrow> read_bootdevs
          | DeviceList ds \<Rightarrow> ret ds) (\<lambda>bootdevs.
     andthen (for_each bootdevs install_grub_on)
     (regenerate_grub ''grub-mkconfig'' ''/usr/sbin/grub-mkconfig'' ''/boot/grub/grub.cfg''))"

section \<open>EFI\<close>

text \<open>\<open>try: os.stat(f); ... except: pass\<close>\<close>

definition if_stat :: "string \<Rightarrow> unit os \<Rightarrow> unit os" where
  "if_stat f m = catch (andthen (fs_action (StatF f)) m) (\<lambda>_. skip)"

definition do_grub_efi :: "unit os" where
  "do_grub_efi =
     bnd (get_st mounts) (\<lambda>ms.
       if ''/boot/efi'' \<notin> set (dict_keys ms) then
         andthen (print ''You must mount a VFAT filesystem of at least 200MB on /boot/efi'')
           (raise InstallerException)
       else block [
         callu [''chroot'', mpref, ''efi-grub-install''],
         callu [''mkdir'', ''-p'', mpref @ ''/boot/efi/EFI/boot''],
         if_stat (mpref @ ''/boot/efi/EFI/grub/grubx64.efi'')
           (callu [''cp'', ''-r'', mpref @ ''/boot/efi/EFI/grub/grubx64.efi'',
              mpref @ ''/boot/efi/EFI/boot/bootx64.efi'']),
         if_stat (mpref @ ''/boot/efi/EFI/grub/grubia32.efi'')
           (callu [''cp'', ''-r'', mpref @ ''/boot/efi/EFI/grub/grubia32.efi'',
              mpref @ ''/boot/efi/EFI/boot/bootia32.efi'']),
         if_stat (mpref @ ''/boot/efi2'') (andthen
           (callu [''rm'', ''-rf'', mpref @ ''/boot/efi2/*''])
           (callu [''cp'', ''-r'', mpref @ ''/boot/efi'', mpref @ ''/boot/efi2''])),
         regenerate_grub ''efi-grub-mkconfig'' ''/usr/sbin/efi-grub-mkconfig''
           ''/boot/efi-grub/grub.cfg''])"

section \<open>do_grub\<close>

definition write_mdadm_conf :: "unit os" where
  "write_mdadm_conf =
     (let f = mpref @ ''/etc/mdadm.conf'' in block [
       fs_action (OpenW f),
       ignore (call_to [''mdadm'', ''--examine'', ''--scan''] f),
       act (CloseF f)])"

definition do_grub :: "bootdevs_arg \<Rightarrow> unit os" where
  "do_grub arg =
     bnd (get_st mounts) (\<lambda>ms.
     bnd (get_st installed) (\<lambda>inst.
       if ms = [] then
         andthen (print ''You must first partition your system before adding grub'')
           (raise InstallerException)
       else if \<not> inst then
         andthen (print ''You must first install your system before adding grub'')
           (raise InstallerException)
       else
         andthen write_mdadm_conf
           (bnd (ask efi_system) (\<lambda>efi. if efi then do_grub_efi else do_grub_bios arg))))"

section \<open>What the operations keep, and that they end\<close>

lemma returns_check_devices [returns_rules]: "returns (check_devices bs ds)"
  by (induction ds) (auto intro!: returns_rules)

lemma returns_read_bootdevs [returns_rules]: "returns read_bootdevs"
  unfolding read_bootdevs_def Let_def by (intro returns_rules)

lemma returns_regenerate_grub [returns_rules]: "returns (regenerate_grub a b c)"
  unfolding regenerate_grub_def by (intro returns_rules)

lemma returns_do_grub_bios [returns_rules]: "returns (do_grub_bios arg)"
  unfolding do_grub_bios_def install_grub_on_def by (cases arg) (auto intro!: returns_rules)

lemma returns_do_grub_efi [returns_rules]: "returns do_grub_efi"
  unfolding do_grub_efi_def if_stat_def by (intro returns_rules)

lemma returns_do_grub [returns_rules]: "returns (do_grub arg)"
  unfolding do_grub_def write_mdadm_conf_def Let_def by (intro returns_rules)

context harmless_contract
begin

lemma keeps_check_devices [keeps_rules]: "keeps P (check_devices bs ds)"
  by (induction ds) (auto intro!: keeps_rules harmless_ok)

lemma keeps_get_base_devs_harmless: "keeps P get_base_devs"
  unfolding get_base_devs_def by (intro keeps_rules)

lemma keeps_regenerate_grub [keeps_rules]: "keeps P (regenerate_grub a b c)"
  unfolding regenerate_grub_def by (intro keeps_rules harmless_ok) simp_all

lemma keeps_do_grub_efi [keeps_rules]: "keeps P do_grub_efi"
  unfolding do_grub_efi_def if_stat_def by (intro keeps_rules harmless_ok) simp_all

lemma keeps_write_mdadm_conf [keeps_rules]: "keeps P write_mdadm_conf"
  unfolding write_mdadm_conf_def Let_def by (intro keeps_rules harmless_ok) simp_all

end

context field_contract
begin

lemma keeps_read_bootdevs [keeps_rules]: "keeps P read_bootdevs"
  unfolding read_bootdevs_def Let_def by (intro keeps_rules harmless_ok) simp_all

lemma keeps_do_grub_bios [keeps_rules]: "keeps P (do_grub_bios arg)"
  unfolding do_grub_bios_def install_grub_on_def
  by (cases arg) (auto intro!: keeps_rules harmless_ok)

lemma keeps_do_grub [keeps_rules]: "keeps P (do_grub arg)"
  unfolding do_grub_def by (intro keeps_rules harmless_ok) simp_all

end

section \<open>Properties\<close>

text \<open>Output to the terminal\<close>

definition is_output :: "event \<Rightarrow> bool" where
  "is_output e \<longleftrightarrow> (\<exists>s. e = Out s)"

text \<open>
  Without a mount table, or before the system is installed, \<open>do_grub\<close> prints a message and
  raises \<open>InstallerException\<close>: it runs no program, touches no file and changes no field.
\<close>

theorem do_grub_guarded:
  assumes "mounts w = [] \<or> \<not> installed w"
  shows "\<exists>w'. do_grub arg E w = Some (Inl InstallerException, w') \<and> only is_output w E w'"
proof -
  have "only is_output w E (emit (Out s) w)" for s
    unfolding only_def using since_emit [of is_output "Out s" w E w] by (simp add: is_output_def)
  with assms show ?thesis by (auto simp: do_grub_def comp_simps print_def)
qed

theorem do_grub_guarded_witness:
  "\<exists>w'. do_grub DefaultList plain_env start_world = Some (Inl InstallerException, w')
     \<and> only is_output start_world plain_env w'"
  by (rule do_grub_guarded) (simp add: start_world_def)

text \<open>The disks \<open>grub-install\<close> is run on, in order.\<close>

fun grub_targets :: "event list \<Rightarrow> string list" where
  "grub_targets [] = []"
| "grub_targets (Call argv # es) =
     (if take 1 argv = [''grub-install''] then last argv # grub_targets es else grub_targets es)"
| "grub_targets (e # es) = grub_targets es"

lemma grub_targets_append: "grub_targets (es @ fs) = grub_targets es @ grub_targets fs"
  by (induction es rule: grub_targets.induct) auto

definition no_grub_install :: "event \<Rightarrow> bool" where
  "no_grub_install e \<longleftrightarrow> grub_targets [e] = []"

lemma no_grub_targets: "(\<forall>e\<in>set es. no_grub_install e) \<Longrightarrow> grub_targets es = []"
proof (induction es)
  case (Cons e es)
  then show ?case using grub_targets_append [of "[e]" es] by (simp add: no_grub_install_def)
qed simp

lemma no_grub_install_simps [simp]:
  "no_grub_install (Exists f)" "no_grub_install (Out s)" "no_grub_install (Call (''chroot'' # a))"
  by (simp_all add: no_grub_install_def)

lemma keeps_no_grub_regenerate: "keeps (only no_grub_install w0) (regenerate_grub a b c)"
  unfolding regenerate_grub_def by (intro keeps_rules) simp_all

text \<open>
  C19: On a BIOS system, once the programs can be started, \<open>do_grub_bios\<close> with a list of devices runs
  \<open>grub-install\<close> on each of them, once, in the order of the list, and on nothing else.
\<close>

theorem grub_installed_on_all:
  assumes "starts_all E"
  shows "\<exists>w' es. do_grub_bios (DeviceList ds) E w = Some (Inr (), w')
    \<and> trace w' = trace w @ es \<and> grub_targets es = ds"
proof -
  let ?es = "\<lambda>i. [Out ((''Installing grub on '' @ i) @ [NL])]
    @ [Call [''grub-install'', ''--root-directory='' @ mpref, i]] @ []"
  let ?r = "regenerate_grub ''grub-mkconfig'' ''/usr/sbin/grub-mkconfig'' ''/boot/grub/grub.cfg''"
  have "completes E (for_each ds install_grub_on)"
    using assms unfolding install_grub_on_def by (intro completes_rules completes_for_each)
  then obtain w1 where run: "for_each ds install_grub_on E w = Some (Inr (), w1)"
    by (fastforce dest: completesD)
  have "logs (for_each ds install_grub_on) (concat (map ?es ds))"
    unfolding install_grub_on_def
    by (intro logs_for_each logs_block_Cons logs_block_Nil logs_prim logs_callu)
  from logsD [OF this, OF run] have t1: "trace w1 = trace w @ concat (map ?es ds)" by simp
  have t2: "grub_targets (concat (map ?es ds)) = ds"
    by (induction ds) (simp_all add: grub_targets_append)
  have "completes E ?r" using assms unfolding regenerate_grub_def by (intro completes_rules)
  then obtain w2 where r: "?r E w1 = Some (Inr (), w2)" by (fastforce dest: completesD)
  have "only no_grub_install w1 E w2"
    by (rule keepsD [OF keeps_no_grub_regenerate, OF only_refl, OF r])
  then obtain fs where "trace w2 = trace w1 @ fs" and "\<forall>e\<in>set fs. no_grub_install e"
    by (auto simp: only_def since_def)
  with t1 t2 no_grub_targets [of fs] have "trace w2 = trace w @ concat (map ?es ds) @ fs"
    and "grub_targets (concat (map ?es ds) @ fs) = ds"
    by (simp_all add: grub_targets_append)
  moreover have "do_grub_bios (DeviceList ds) E w = Some (Inr (), w2)"
    unfolding do_grub_bios_def by (simp add: bnd_app ret_app andthen_app run r del: for_each.simps)
  ultimately show ?thesis by blast
qed

theorem grub_installed_on_all_witness:
  "\<exists>w'. do_grub_bios (DeviceList [''/dev/sda'', ''/dev/sdb'']) plain_env start_world = Some (Inr (), w')
    \<and> grub_targets (trace w') = [''/dev/sda'', ''/dev/sdb'']"
  using grub_installed_on_all [OF plain_env_starts, of "[''/dev/sda'', ''/dev/sdb'']" start_world]
  by (auto simp: start_world_def)

end
