(* ===== verification/Hostname.thy ===== *)
theory Hostname
  imports Grub
begin

text \<open>
  \<open>Installer.set_hostname\<close>. The prompt is repeated until the user types something, so the loop may
  never end.
\<close>

section \<open>The operation\<close>

definition prompt_round :: "unit \<Rightarrow> (unit + string) os" where
  "prompt_round = (\<lambda>_. bnd (read_input ''hostname> '') (\<lambda>s.
     let hostname = strip s in
     andthen (set_hook (Some hostname))
       (ret (if hostname = [] then Inl () else Inr hostname))))"

definition prompt_hostname :: "string \<Rightarrow> string os" where
  "prompt_hostname hostname =
     andthen (print ''Please enter the hostname'')
       (ensure (andthen (set_hook (Some hostname)) (iterate prompt_round ())) (set_hook None))"

text \<open>\<open>try: _call_cmd(...) except CmdErr\<close>: whether the command succeeded.\<close>

definition cmd_works :: "string list \<Rightarrow> bool os" where
  "cmd_works argv =
     catch (andthen (call_cmd (TupleC argv) False) (ret True))
       (\<lambda>e. case e of CmdErr _ _ _ _ \<Rightarrow> ret False | _ \<Rightarrow> raise e)"

definition dhcp_script :: "unit os" where
  "dhcp_script = block [
     fs_action (OpenW ''/tmp/dhcp_get_hostname''),
     act (WriteF ''/tmp/dhcp_get_hostname'' (''#!/bin/sh'' @ [NL])),
     act (WriteF ''/tmp/dhcp_get_hostname'' (''echo $hostname >/tmp/my_hostname'' @ [NL])),
     act (CloseF ''/tmp/dhcp_get_hostname''),
     fs_action (Chmod ''/tmp/dhcp_get_hostname'' (7 * 64))]"

definition dhcp_hostname :: "string os" where
  "dhcp_hostname =
     andthen dhcp_script
    (bnd (cmd_works [''udhcpc'', ''-n'', ''-q'', ''-f'', ''-s'', ''/tmp/dhcp_get_hostname'']) (\<lambda>got.
     bnd (if got then bnd (open_read ''/tmp/my_hostname'') (\<lambda>content. ret (strip (first_line content)))
          else ret []) (\<lambda>hostname.
     if hostname = [] then
       andthen (print ''Unable to obtain the hostname with DHCP, defaulting to host'') (ret ''host'')
     else ret hostname)))"

definition write_hostname :: "string \<Rightarrow> unit os" where
  "write_hostname hostname = block [
     fs_action (OpenW (mpref @ ''/etc/hostname'')),
     act (WriteF (mpref @ ''/etc/hostname'') (hostname @ [NL])),
     act (CloseF (mpref @ ''/etc/hostname''))]"

definition name_host :: "bool \<Rightarrow> unit os" where
  "name_host prompt =
     bnd dhcp_hostname (\<lambda>hostname.
     bnd (if prompt then prompt_hostname hostname else ret hostname) write_hostname)"

definition set_hostname :: "bool \<Rightarrow> unit os" where
  "set_hostname prompt =
     bnd (get_st installed) (\<lambda>inst.
       if \<not> inst then
         andthen (print ''You must first install your system before setting the hostname'')
           (raise InstallerException)
       else
         bnd (cmd_works [''udhcpc'', ''-n'', ''-q'', ''-f'']) (\<lambda>dhcpworked.
           whenc dhcpworked (name_host prompt)))"

section \<open>What the operations keep\<close>

lemma keeps_exn_handler [keeps_rules]:
  "keeps P m \<Longrightarrow> keeps P (case e of CmdErr a b c d \<Rightarrow> m | _ \<Rightarrow> raise e)"
  by (cases e) (simp_all add: keeps_raise)

context field_contract
begin

lemma keeps_prompt_round [keeps_rules]: "keeps P (prompt_round b)"
  unfolding prompt_round_def Let_def by (intro keeps_rules harmless_ok) simp_all

lemma keeps_prompt_hostname [keeps_rules]: "keeps P (prompt_hostname h)"
  unfolding prompt_hostname_def by (intro keeps_rules harmless_ok) simp_all

lemma keeps_cmd_works [keeps_rules]: "ok (Popen argv) \<Longrightarrow> keeps P (cmd_works argv)"
  unfolding cmd_works_def by (intro keeps_rules) simp

lemma keeps_dhcp_hostname [keeps_rules]: "keeps P dhcp_hostname"
  unfolding dhcp_hostname_def dhcp_script_def by (intro keeps_rules harmless_ok) simp_all

lemma keeps_set_hostname [keeps_rules]: "keeps P (set_hostname prompt)"
  unfolding set_hostname_def name_host_def write_hostname_def by (intro keeps_rules harmless_ok) simp_all

end

section \<open>The prompt\<close>

text \<open>
  The state after the user has answered the prompt \<open>n\<close> times with a blank line, and the next
  answer.
\<close>

definition next_prompt :: "world \<Rightarrow> world" where
  "next_prompt w = emit (Input ''hostname> '' (hook w)) (w\<lparr>hook := Some []\<rparr>)"

primrec after_blanks :: "world \<Rightarrow> nat \<Rightarrow> world" where
  "after_blanks w 0 = w"
| "after_blanks w (Suc n) = next_prompt (after_blanks w n)"

definition answer :: "env \<Rightarrow> world \<Rightarrow> nat \<Rightarrow> exn + string" where
  "answer E w n = typed E (trace (after_blanks w n))"

definition blank :: "exn + string \<Rightarrow> bool" where
  "blank r = (case r of Inl _ \<Rightarrow> False | Inr s \<Rightarrow> strip s = [])"

lemma prompt_round_app:
  "prompt_round b E w = Some (case typed E (trace w) of
       Inl e \<Rightarrow> (Inl e, emit (Input ''hostname> '' (hook w)) w)
     | Inr s \<Rightarrow> (Inr (if strip s = [] then Inl () else Inr (strip s)),
         emit (Input ''hostname> '' (hook w)) (w\<lparr>hook := Some (strip s)\<rparr>)))"
  by (simp add: prompt_round_def Let_def bnd_app andthen_app read_input_def set_hook_def modify_st_app
      ret_app split: sum.splits)

lemma prompt_round_blank:
  "blank (typed E (trace w)) \<Longrightarrow> prompt_round b E w = Some (Inr (Inl ()), next_prompt w)"
  by (cases "typed E (trace w)") (simp_all add: prompt_round_app blank_def next_prompt_def)

lemma iterate_after_blanks:
  "(\<And>i. i < n \<Longrightarrow> blank (answer E w i)) \<Longrightarrow>
     iterate prompt_round () E w = iterate prompt_round () E (after_blanks w n)"
proof (induction n)
  case (Suc n)
  then have "blank (typed E (trace (after_blanks w n)))" by (simp add: answer_def)
  then have "prompt_round () E (after_blanks w n) = Some (Inr (Inl ()), after_blanks w (Suc n))"
    by (simp add: prompt_round_blank)
  then have "iterate prompt_round () E (after_blanks w n)
      = iterate prompt_round () E (after_blanks w (Suc n))"
    by (rule iterate_again)
  with Suc show ?case by (metis less_Suc_eq)
qed simp

lemma iterate_all_blank:
  assumes "\<And>i. blank (answer E w i)"
  shows "iterate prompt_round () E w = None"
proof (rule ccontr)
  assume "iterate prompt_round () E w \<noteq> None"
  then obtain r w' where run: "iterate prompt_round () E w = Some (r, w')" by auto
  have round: "prompt_round b E (after_blanks w n) = Some (Inr (Inl ()), after_blanks w (Suc n))" for b n
    using assms [of n] by (simp add: answer_def prompt_round_blank)
  have start: "\<exists>n. w = after_blanks w n" by (rule exI [of _ 0]) simp
  have step: "\<exists>n. r = Inr (Inl ()) \<and> v' = after_blanks w n"
    if "\<exists>n. v = after_blanks w n" and "prompt_round b E v = Some (r, v')" for b v r v'
    using that round by (metis Pair_inject option.inject)
  show False
    by (rule iterate_invariant
        [where I = "\<lambda>_ v. \<exists>n. v = after_blanks w n" and Q = "\<lambda>_ _. False", OF run start])
      (use step in blast)+
qed

text \<open>The loop starts after the message, with the proposed name as the default text.\<close>

definition prompt_start :: "string \<Rightarrow> world \<Rightarrow> world" where
  "prompt_start h w = (emit (Out (''Please enter the hostname'' @ [NL])) w)\<lparr>hook := Some h\<rparr>"

lemma prompt_hostname_app:
  "prompt_hostname h E w =
     map_option (apsnd (hook_update (\<lambda>_. None))) (iterate prompt_round () E (prompt_start h w))"
  by (auto simp: prompt_hostname_def andthen_app ensure_app print_def act_app set_hook_def modify_st_app
      prompt_start_def split: option.splits sum.splits)

lemma iterate_first_answer:
  assumes "\<And>i. i < n \<Longrightarrow> blank (answer E w i)" and "\<not> blank (answer E w n)"
  shows "\<exists>w'. iterate prompt_round () E w
    = Some (case answer E w n of Inl e \<Rightarrow> Inl e | Inr s \<Rightarrow> Inr (strip s), w')"
proof -
  let ?v = "after_blanks w n"
  have *: "typed E (trace ?v) = answer E w n" by (simp add: answer_def)
  show ?thesis
  proof (cases "answer E w n")
    case (Inl e)
    with * have "prompt_round () E ?v = Some (Inl e, emit (Input ''hostname> '' (hook ?v)) ?v)"
      by (simp add: prompt_round_app)
    with iterate_raise iterate_after_blanks [OF assms(1)] Inl show ?thesis by fastforce
  next
    case (Inr s)
    with * assms(2) have "prompt_round () E ?v
      = Some (Inr (Inr (strip s)), emit (Input ''hostname> '' (hook ?v)) (?v\<lparr>hook := Some (strip s)\<rparr>))"
      by (simp add: prompt_round_app blank_def)
    with iterate_leave iterate_after_blanks [OF assms(1)] Inr show ?thesis by fastforce
  qed
qed

text \<open>
  C14: The hostname prompt never ends exactly when every answer is blank. Otherwise it ends at the
  first answer that is not: with that answer stripped, or with the exception \<open>input\<close> raised.
\<close>

theorem prompt_ends_at_first_answer:
  "(prompt_hostname h E w = None \<longleftrightarrow> (\<forall>i. blank (answer E (prompt_start h w) i)))
   \<and> (\<forall>n. (\<forall>i<n. blank (answer E (prompt_start h w) i)) \<longrightarrow> \<not> blank (answer E (prompt_start h w) n) \<longrightarrow>
        map_option fst (prompt_hostname h E w)
          = Some (case answer E (prompt_start h w) n of Inl e \<Rightarrow> Inl e | Inr s \<Rightarrow> Inr (strip s)))"
proof -
  let ?a = "answer E (prompt_start h w)"
  have first: "map_option fst (prompt_hostname h E w)
      = Some (case ?a n of Inl e \<Rightarrow> Inl e | Inr s \<Rightarrow> Inr (strip s))"
    if "\<forall>i<n. blank (?a i)" and "\<not> blank (?a n)" for n
    using iterate_first_answer [of n E "prompt_start h w"] that by (auto simp: prompt_hostname_app)
  have "prompt_hostname h E w \<noteq> None" if "\<not> blank (?a i)" for i
  proof -
    from that obtain n where "\<not> blank (?a n)" and "\<forall>i<n. blank (?a i)"
      using exists_least_iff [of "\<lambda>i. \<not> blank (?a i)"] by blast
    then show ?thesis using first [of n] by auto
  qed
  moreover have "prompt_hostname h E w = None" if "\<forall>i. blank (?a i)"
    using iterate_all_blank [of E "prompt_start h w"] that by (simp add: prompt_hostname_app)
  ultimately show ?thesis using first by blast
qed

text \<open>The user presses return twice and then types a name.\<close>

definition typing_env :: env where
  "typing_env = plain_env\<lparr>typed := \<lambda>h. if length h < 3 then Inr '' '' else Inr '' box ''\<rparr>"

theorem prompt_ends_at_first_answer_witness:
  "map_option fst (prompt_hostname ''host'' typing_env start_world) = Some (Inr ''box'')"
proof -
  have 1: "\<forall>i<2. blank (answer typing_env (prompt_start ''host'' start_world) i)"
    by (auto simp: less_2_cases_iff) code_simp+
  have 2: "\<not> blank (answer typing_env (prompt_start ''host'' start_world) 2)"
    by code_simp
  have 3: "answer typing_env (prompt_start ''host'' start_world) 2 = Inr '' box ''"
    by code_simp
  have 4: "strip '' box '' = ''box''" by code_simp
  from conjunct2 [OF prompt_ends_at_first_answer, of typing_env "''host''" start_world] 1 2
  have "map_option fst (prompt_hostname ''host'' typing_env start_world)
    = Some (case answer typing_env (prompt_start ''host'' start_world) 2 of Inl e \<Rightarrow> Inl e
        | Inr s \<Rightarrow> Inr (strip s))"
    by blast
  then show ?thesis by (simp only: 3 4 sum.case)
qed

section \<open>The file\<close>

text \<open>What is written to \<open>/etc/hostname\<close> is one name without surrounding white space.\<close>

definition hostname_ok :: "event \<Rightarrow> bool" where
  "hostname_ok e \<longleftrightarrow> (case e of
       WriteF f s \<Rightarrow> f = mpref @ ''/etc/hostname'' \<longrightarrow>
         (s \<noteq> [NL] \<and> last s = NL \<and> strip (butlast s) = butlast s)
     | _ \<Rightarrow> True)"

lemma trim_end_head:
  assumes "\<not> p c"
  shows "dropWhile p (rev (dropWhile p (rev (c # cs)))) = rev (dropWhile p (rev (c # cs)))"
proof -
  have "dropWhile p (ys @ [c]) = dropWhile p ys @ [c]" for ys
    using assms by (induction ys) simp_all
  then show ?thesis using assms by simp
qed

lemma trim_end_idem:
  "dropWhile p (rev (dropWhile p (rev (dropWhile p t)))) = rev (dropWhile p (rev (dropWhile p t)))"
proof (cases "dropWhile p t")
  case Nil
  then show ?thesis unfolding Nil by simp
next
  case (Cons c cs)
  then have "\<not> p c" by (metis dropWhile_eq_Cons_conv)
  then show ?thesis unfolding Cons by (rule trim_end_head)
qed

lemma dropWhile_again: "dropWhile p (dropWhile p t) = dropWhile p t"
  by (induction t) simp_all

lemma strip_idem: "strip (strip s) = strip s"
  unfolding strip_def strip_if_def by (simp only: trim_end_idem rev_rev_ident dropWhile_again)

definition named :: "string \<Rightarrow> bool" where
  "named h \<longleftrightarrow> h \<noteq> [] \<and> strip h = h"

lemma named_strip: "strip s \<noteq> [] \<Longrightarrow> named (strip s)"
  by (simp add: named_def strip_idem)

lemma yields_dhcp_hostname: "yields named dhcp_hostname"
proof -
  have host: "named ''host''" by code_simp
  have choice: "yields named (if h = [] then andthen (print s) (ret ''host'') else ret h)"
    if "strip h = h" for h s
    using that host by (auto simp: named_def intro!: yields_andthen yields_ret)
  have read: "yields (\<lambda>h. strip h = h) (if got then bnd (open_read f) (\<lambda>c. ret (strip (first_line c))) else ret [])"
    for got f
    by (intro yields_if yields_bnd_any yields_ret strip_idem) (simp add: strip_def strip_if_def)
  show ?thesis
    unfolding dhcp_hostname_def
    by (rule yields_andthen, rule yields_bnd_any, rule yields_bnd [OF read choice])
qed

lemma yields_prompt_hostname: "yields named (prompt_hostname h)"
proof -
  have "yields named (iterate prompt_round ())"
    by (rule yields_iterate)
      (auto intro!: yieldsI simp: prompt_round_app named_strip split: sum.splits if_splits)
  then show ?thesis
    by (intro yieldsI) (auto simp: prompt_hostname_app dest: yieldsD)
qed

text \<open>What \<open>/etc/hostname\<close> receives, apart from everything else that may be written.\<close>

lemma hostname_ok_simps [simp]:
  "hostname_ok (Popen a)" "hostname_ok (Out s)" "hostname_ok (OpenW f)" "hostname_ok (OpenR f)"
  "hostname_ok (CloseF f)" "hostname_ok (Chmod f m)" "hostname_ok (Input p v)"
  "hostname_ok (WriteF ''/tmp/dhcp_get_hostname'' s)"
  by (simp_all add: hostname_ok_def mpref_def)

lemma keeps_write_hostname: "named h \<Longrightarrow> keeps (since hostname_ok w0) (write_hostname h)"
  unfolding write_hostname_def
  by (intro keeps_rules) (auto simp: hostname_ok_def named_def)

lemma keeps_dhcp_hostname_ok: "keeps (since hostname_ok w0) dhcp_hostname"
  unfolding dhcp_hostname_def dhcp_script_def cmd_works_def
  by (intro keeps_rules since.keeps_call_cmd) simp_all

lemma keeps_prompt_hostname_ok: "keeps (since hostname_ok w0) (prompt_hostname h)"
  unfolding prompt_hostname_def prompt_round_def Let_def set_hook_def
  by (intro keeps_rules keeps_modify_st) (simp_all add: since_def)

text \<open>
  C15: Whatever DHCP and the user answer, each line written to the \<open>/etc/hostname\<close> of the new
  system is a nonempty name without surrounding white space, followed by a newline.
\<close>

theorem hostname_file_ok:
  assumes "set_hostname prompt E w = Some (r, w')"
  shows "since hostname_ok w E w'"
proof -
  have name: "yields named (if prompt then prompt_hostname h else ret h)"
    and quiet: "keeps (since hostname_ok w) (if prompt then prompt_hostname h else ret h)"
    if "named h" for h
    using that by (auto intro!: yields_prompt_hostname yields_ret keeps_prompt_hostname_ok keeps_ret)
  have writes: "keeps (since hostname_ok w)
      (bnd (if prompt then prompt_hostname h else ret h) write_hostname)" if "named h" for h
    by (rule keeps_bnd_yields [OF quiet name, OF that that keeps_write_hostname])
  have "keeps (since hostname_ok w) (name_host prompt)"
    unfolding name_host_def by (rule keeps_bnd_yields [OF keeps_dhcp_hostname_ok yields_dhcp_hostname writes])
  then have "keeps (since hostname_ok w) (set_hostname prompt)"
    unfolding set_hostname_def cmd_works_def
    by (intro keeps_rules since.keeps_call_cmd) simp_all
  from keepsD [OF this, OF since_refl, OF assms] show ?thesis .
qed

text \<open>DHCP answers with a blank name, and the user accepts the default after an empty line.\<close>

definition dhcp_env :: env where
  "dhcp_env = typing_env\<lparr>read_file := \<lambda>_ _. Inr '' ''\<rparr>"

theorem hostname_file_ok_witness:
  "\<exists>w'. set_hostname True dhcp_env (start_world\<lparr>installed := True\<rparr>) = Some (Inr (), w')
     \<and> since hostname_ok (start_world\<lparr>installed := True\<rparr>) dhcp_env w'
     \<and> WriteF (mpref @ ''/etc/hostname'') (''box'' @ [NL]) \<in> set (trace w')"
proof -
  have run: "map_option (\<lambda>(r, w'). (r, WriteF (mpref @ ''/etc/hostname'') (''box'' @ [NL]) \<in> set (trace w')))
      (set_hostname True dhcp_env (start_world\<lparr>installed := True\<rparr>)) = Some (Inr (), True)"
    by code_simp
  then obtain w' where "set_hostname True dhcp_env (start_world\<lparr>installed := True\<rparr>) = Some (Inr (), w')"
    and "WriteF (mpref @ ''/etc/hostname'') (''box'' @ [NL]) \<in> set (trace w')"
    by auto
  with hostname_file_ok show ?thesis by blast
qed

section \<open>Without DHCP\<close>

text \<open>
  When the first DHCP request fails, \<open>set_hostname\<close> returns normally after that one command:
  it neither asks the user, whatever \<open>prompt\<close> is, nor writes a hostname.
\<close>

theorem set_hostname_without_dhcp:
  assumes "installed w"
    and "run E (trace w) [''udhcpc'', ''-n'', ''-q'', ''-f''] = Inr (rc, out, err)" and "rc \<noteq> 0"
  shows "set_hostname prompt E w
    = Some (Inr (), emit (Popen [''udhcpc'', ''-n'', ''-q'', ''-f'']) w)"
  using assms
  by (simp add: set_hostname_def cmd_works_def call_cmd_app bnd_app andthen_app catch_app get_st_app
      ret_app whenc_def skip_def)

theorem set_hostname_without_dhcp_witness:
  "set_hostname True (plain_env\<lparr>run := \<lambda>_ _. Inr (1, [], [])\<rparr>) (start_world\<lparr>installed := True\<rparr>)
    = Some (Inr (), emit (Popen [''udhcpc'', ''-n'', ''-q'', ''-f'']) (start_world\<lparr>installed := True\<rparr>))"
  by (rule set_hostname_without_dhcp [where rc = 1]) simp_all

end
