(* ===== verification/Partitioning.thy ===== *)
theory Partitioning
  imports PyNum Hostname
begin

text \<open>
  The operations a \<open>user_installer\<close> builds an installation from: \<open>clear_partition_table\<close>,
  \<open>get_partitions\<close>, \<open>create_partition\<close>, \<open>create_raid\<close>, \<open>create_vg\<close>, \<open>create_lv\<close> and
  \<open>_set_dev_contents\<close>, which they share.
\<close>

section \<open>Partition tables\<close>

definition clear_partition_table :: "string \<Rightarrow> string \<Rightarrow> unit os" where
  "clear_partition_table device tabletype = ignore (call_parted device [''mktable'', tabletype])"

text \<open>A partition: number, start and end in megabytes.\<close>

type_synonym part = "int \<times> int \<times> int"

definition megabytes :: "string list \<Rightarrow> exn + pyfloat" where
  "megabytes ws = rbind (index ws 1) (\<lambda>s. float_of_str (drop_end 2 s))"

text \<open>
  The loop over the lines of \<open>parted ... unit MB p\<close>. Both the start and the end are computed
  from the second field, as in the source.
\<close>

definition part_entry :: "string list \<Rightarrow> exn + part" where
  "part_entry ws =
     rbind (int_of_str (ws ! 0)) (\<lambda>num.
     rbind (megabytes ws) (\<lambda>f.
     rbind (int_of_float f) (\<lambda>start.
     rbind (int_of_float (float_add f (9999 / 10000))) (\<lambda>end.
     Inr (num, start, end)))))"

fun parse_partitions :: "string \<Rightarrow> string list \<Rightarrow> int \<times> part list \<Rightarrow> exn + (int \<times> part list)" where
  "parse_partitions device [] acc = Inr acc"
| "parse_partitions device (l # ls) (sz, parts) =
     (let ws = split_on (CHR '':'') l in
      if ws ! 0 = device then
        rbind (rbind (megabytes ws) int_of_float) (\<lambda>n. parse_partitions device ls (n, parts))
      else if isdigit (ws ! 0) then
        rbind (part_entry ws) (\<lambda>p. parse_partitions device ls (sz, parts @ [p]))
      else parse_partitions device ls (sz, parts))"

definition get_partitions :: "string \<Rightarrow> (int \<times> part list) os" where
  "get_partitions device =
     bnd (call_parted device [''unit'', ''MB'', ''p'']) (\<lambda>out.
     bnd (pipe_split NL out) (\<lambda>ls. lift_res (parse_partitions device ls (0, []))))"

section \<open>What a device holds\<close>

text \<open>\<open>'%s' % x\<close> of a value that may be \<open>None\<close>\<close>

definition show_opt :: "string option \<Rightarrow> string" where
  "show_opt v = (case v of None \<Rightarrow> ''None'' | Some s \<Rightarrow> s)"

definition fs_entry :: "string \<Rightarrow> string option \<Rightarrow> string \<Rightarrow> string" where
  "fs_entry device mountpoint fstype =
     device @ [TAB] @ show_opt mountpoint @ [TAB] @ fstype @ [TAB] @ ''defaults'' @ [TAB] @ ''0'' @ [TAB]
     @ (if mountpoint = Some ''/'' then ''1'' else ''2'')"

definition swap_entry :: "string \<Rightarrow> string" where
  "swap_entry device =
     device @ [TAB] @ ''swap'' @ [TAB] @ ''swap'' @ [TAB] @ ''sw'' @ [TAB] @ ''0'' @ [TAB] @ ''0''"

definition append_fstab :: "string \<Rightarrow> unit os" where
  "append_fstab entry = ignore (shell (''echo '' @ entry @ '' >>/tmp/fstab''))"

definition set_dev_contents ::
  "string \<Rightarrow> string \<Rightarrow> string option \<Rightarrow> string option \<Rightarrow> (string \<times> int) option \<Rightarrow> unit os" where
  "set_dev_contents device dest fstype mountpoint part =
     (if dest = ''fs'' then
        (case fstype of
           None \<Rightarrow> raise TypeError
         | Some t \<Rightarrow> block [
             callu [''mkfs.'' @ t, device],
             append_fstab (fs_entry device mountpoint t)])
      else block [
        (case part of
           None \<Rightarrow> skip
         | Some (partdev, partnum) \<Rightarrow> whenc (partdev \<noteq> [])
             (ignore (call_parted partdev [''set'', str_of_int partnum, dest, ''on'']))),
        if dest = ''lvm'' then callu [''pvcreate'', device]
        else whenc (dest = ''swap'') (block [
          append_fstab (swap_entry device),
          callu [''mkswap'', ''-f'', device]])])"

section \<open>create_partition\<close>

text \<open>
  The search for free space: \<open>Some\<close> the end of the last partition before the first gap of
  \<open>sz\<close> megabytes, or the end of the last partition when the rest of the disk is large enough.
\<close>

fun find_gap :: "int \<Rightarrow> int \<Rightarrow> int \<Rightarrow> part list \<Rightarrow> int option" where
  "find_gap disksize sz last_end [] =
     (if disksize - last_end \<ge> sz then Some last_end else None)"
| "find_gap disksize sz last_end ((num, start, end) # parts) =
     (if start - last_end \<ge> sz then Some last_end else find_gap disksize sz end parts)"

text \<open>An end of the new partition: a number or, as in \<open>-2s\<close>, text for \<open>parted\<close>.\<close>

datatype place = At int | AtText string

definition str_of_place :: "place \<Rightarrow> string" where
  "str_of_place p = (case p of At i \<Rightarrow> str_of_int i | AtText s \<Rightarrow> s)"

text \<open>\<open>sz\<close> may be \<open>None\<close> when a location is given; without one, comparing with it raises.\<close>

definition choose_location :: "string \<Rightarrow> int option \<Rightarrow> (place \<times> place) option \<Rightarrow> (place \<times> place) os" where
  "choose_location device sz location = (case location of
       Some l \<Rightarrow> ret l
     | None \<Rightarrow> bnd (get_partitions device) (\<lambda>(disksize, parts). case sz of
           None \<Rightarrow> raise TypeError
         | Some n \<Rightarrow> (case find_gap disksize n 1 parts of
               Some start \<Rightarrow> ret (At start, At (start + n))
             | None \<Rightarrow> andthen
                 (print (''Adding partition '' @ device @ '' size '' @ str_of_int n @ '', no space''))
                 (raise InstallerException))))"

text \<open>Waiting for the device node; \<open>count\<close> is the number of failed tests so far.\<close>

function wait_node :: "nat \<Rightarrow> string \<Rightarrow> unit os" where
  "wait_node count pdev =
     bnd (test (Access pdev)) (\<lambda>there.
       if there then skip
       else if count + 1 > 10 then
         andthen (print (pdev @ '' did not get created properly'')) (raise InstallerException)
       else andthen (act (Sleep 1)) (wait_node (count + 1) pdev))"
  by pat_completeness auto
termination
  by (relation "measure (\<lambda>(count, _). 11 - count)") auto

declare wait_node.simps [simp del]

text \<open>\<open>lines[len(lines) - 2]\<close>; of a single line it is \<open>lines[-1]\<close>, that line.\<close>

definition line_before_last :: "string list \<Rightarrow> string" where
  "line_before_last ls = (if length ls \<ge> 2 then ls ! (length ls - 2) else last ls)"

definition partition_device :: "string \<Rightarrow> int \<Rightarrow> string" where
  "partition_device device num =
     (if startswith device ''/dev/md'' then device @ ''p'' @ str_of_int num
      else device @ str_of_int num)"

definition create_partition ::
  "string \<Rightarrow> int option \<Rightarrow> string \<Rightarrow> string \<Rightarrow> (place \<times> place) option
     \<Rightarrow> string option \<Rightarrow> string option \<Rightarrow> string os" where
  "create_partition device sz parttype partid location fstype mountpoint =
     bnd (choose_location device sz location) (\<lambda>(start, end).
     bnd (call_parted device [''mkpart'', parttype, str_of_place start, str_of_place end]) (\<lambda>out.
     bnd (pipe_split NL out) (\<lambda>ls.
     bnd (lift_res (int_of_str (line_before_last ls))) (\<lambda>num.
     let pdev = partition_device device num in
     andthen (wait_node 0 pdev)
    (andthen (set_dev_contents pdev partid fstype mountpoint (Some (device, num)))
     (ret pdev))))))"

section \<open>RAID and LVM\<close>

definition md_device :: "nat \<Rightarrow> string" where
  "md_device i = ''/dev/md'' @ str_of_nat i"

text \<open>\<open>for i in range(0, 128)\<close>, from \<open>i\<close> on\<close>

fun find_md :: "nat list \<Rightarrow> string option os" where
  "find_md [] = ret None"
| "find_md (i # is) =
     bnd (test (Exists (md_device i))) (\<lambda>there.
       if \<not> there then ret (Some (md_device i)) else find_md is)"

definition raid_options :: "string list \<Rightarrow> string list" where
  "raid_options devs =
     [''--force'', ''--level=1'', ''--metadata=0.90'', ''--run'',
      ''--raid-devices='' @ str_of_nat (length devs)] @ devs"

definition raid_contents ::
  "string \<Rightarrow> string \<Rightarrow> string option \<Rightarrow> string option \<Rightarrow> unit os" where
  "raid_contents device dest fstype mountpoint =
     (if dest = ''part'' then (case fstype of
          None \<Rightarrow> raise TypeError
        | Some t \<Rightarrow> ignore (call_parted device [''mktable'', t]))
      else set_dev_contents device dest fstype mountpoint None)"

definition create_raid ::
  "string list \<Rightarrow> string \<Rightarrow> string option \<Rightarrow> string option \<Rightarrow> string os" where
  "create_raid devs dest fstype mountpoint =
     bnd (find_md [0..<128]) (\<lambda>found. case found of
       None \<Rightarrow> andthen (print ''No free MD device numbers'') (raise InstallerException)
     | Some device \<Rightarrow>
         andthen (ignore (call_mdadm device ''--create'' (raid_options devs) False))
        (andthen (raid_contents device dest fstype mountpoint)
         (ret device)))"

definition create_vg :: "string list \<Rightarrow> string \<Rightarrow> string os" where
  "create_vg devs name = andthen (ignore (call_lvmcmd ''vgcreate'' ([name] @ devs))) (ret name)"

definition create_lv ::
  "string \<Rightarrow> pynum \<Rightarrow> string \<Rightarrow> string \<Rightarrow> string option \<Rightarrow> string option \<Rightarrow> string os" where
  "create_lv vg sz name dest fstype mountpoint =
     (let device = ''/dev/mapper/'' @ vg @ ''-'' @ name in
      andthen (ignore (call_lvmcmd ''lvcreate''
          [''--name'', name, ''--size'', str_of_num sz @ ''M'', ''/dev/'' @ vg]))
     (andthen (set_dev_contents device dest fstype mountpoint None)
      (ret device)))"

section \<open>What the operations keep, and that they end\<close>

lemma returns_get_partitions [returns_rules]: "returns (get_partitions d)"
  unfolding get_partitions_def by (intro returns_rules)

lemma returns_set_dev_contents [returns_rules]: "returns (set_dev_contents d dest t m p)"
  unfolding set_dev_contents_def append_fstab_def by (intro returns_rules)

lemma returns_choose_location [returns_rules]: "returns (choose_location d n l)"
  unfolding choose_location_def by (intro returns_rules)

lemma returns_wait_node [returns_rules]: "returns (wait_node count pdev)"
proof (induction count pdev rule: wait_node.induct)
  case (1 count pdev)
  then show ?case by (subst wait_node.simps) (intro returns_rules, simp_all)
qed

lemma returns_create_partition [returns_rules]: "returns (create_partition d n pt pid l t m)"
  unfolding create_partition_def Let_def by (intro returns_rules)

lemma returns_find_md [returns_rules]: "returns (find_md is)"
  by (induction "is") (auto intro!: returns_rules)

lemma returns_raid_contents [returns_rules]: "returns (raid_contents d dest t m)"
  unfolding raid_contents_def by (intro returns_rules)

lemma returns_create_raid [returns_rules]: "returns (create_raid ds dest t m)"
  unfolding create_raid_def by (intro returns_rules)

lemma returns_create_vg [returns_rules]: "returns (create_vg ds n)"
  unfolding create_vg_def by (intro returns_rules)

lemma returns_create_lv [returns_rules]: "returns (create_lv vg n name dest t m)"
  unfolding create_lv_def Let_def by (intro returns_rules)

lemma returns_clear_partition_table [returns_rules]: "returns (clear_partition_table d t)"
  unfolding clear_partition_table_def by (intro returns_rules)

context full_contract
begin

lemma keeps_clear_partition_table [keeps_rules]: "keeps P (clear_partition_table d t)"
  unfolding clear_partition_table_def by (intro keeps_rules all_ok)

lemma keeps_get_partitions [keeps_rules]: "keeps P (get_partitions d)"
  unfolding get_partitions_def by (intro keeps_rules all_ok)

lemma keeps_set_dev_contents [keeps_rules]: "keeps P (set_dev_contents d dest t m p)"
  unfolding set_dev_contents_def append_fstab_def by (intro keeps_rules all_ok)

lemma keeps_choose_location [keeps_rules]: "keeps P (choose_location d n l)"
  unfolding choose_location_def by (intro keeps_rules all_ok)

lemma keeps_wait_node [keeps_rules]: "keeps P (wait_node count pdev)"
proof (induction count pdev rule: wait_node.induct)
  case (1 count pdev)
  then show ?case by (subst wait_node.simps) (intro keeps_rules all_ok, simp_all)
qed

lemma keeps_create_partition [keeps_rules]: "keeps P (create_partition d n pt pid l t m)"
  unfolding create_partition_def Let_def by (intro keeps_rules all_ok)

lemma keeps_find_md [keeps_rules]: "keeps P (find_md is)"
  by (induction "is") (auto intro!: keeps_rules all_ok)

lemma keeps_raid_contents [keeps_rules]: "keeps P (raid_contents d dest t m)"
  unfolding raid_contents_def by (intro keeps_rules all_ok)

lemma keeps_create_raid [keeps_rules]: "keeps P (create_raid ds dest t m)"
  unfolding create_raid_def by (intro keeps_rules all_ok)

lemma keeps_create_vg [keeps_rules]: "keeps P (create_vg ds n)"
  unfolding create_vg_def by (intro keeps_rules all_ok)

lemma keeps_create_lv [keeps_rules]: "keeps P (create_lv vg n name dest t m)"
  unfolding create_lv_def Let_def by (intro keeps_rules all_ok)

end

end
