(* ===== verification/PartitionFacts.thy ===== *)
theory PartitionFacts
  imports Partitioning
begin

text \<open>
  Properties of the partitioning operations: the search for free space and what
  \<open>get_partitions\<close> feeds it, the wait for the device node, the choice of the RAID device and the
  entries written to the fstab.
\<close>

section \<open>The search for free space\<close>

text \<open>
  Partitions in the order of the disk, after position \<open>e\<close> and before its end \<open>D\<close>; and what it
  means that \<open>n\<close> megabytes fit at \<open>t\<close>.
\<close>

fun laid_out :: "int \<Rightarrow> part list \<Rightarrow> int \<Rightarrow> bool" where
  "laid_out e [] D \<longleftrightarrow> e \<le> D"
| "laid_out e ((num, a, b) # ps) D \<longleftrightarrow> e \<le> a \<and> a < b \<and> laid_out b ps D"

definition fits :: "int \<Rightarrow> int \<Rightarrow> int \<Rightarrow> part list \<Rightarrow> int \<Rightarrow> bool" where
  "fits D n e ps t \<longleftrightarrow> e \<le> t \<and> t + n \<le> D \<and> (\<forall>(num, a, b)\<in>set ps. b \<le> t \<or> t + n \<le> a)"

lemma laid_out_le: "laid_out e ps D \<Longrightarrow> e \<le> D"
  by (induction e ps D rule: laid_out.induct) auto

lemma laid_out_bounds: "laid_out e ps D \<Longrightarrow> (num, a, b) \<in> set ps \<Longrightarrow> e \<le> a \<and> a < b"
  by (induction e ps D rule: laid_out.induct) auto

lemma fits_Cons:
  assumes "0 < n" and "laid_out e ((num, a, b) # ps) D"
  shows "fits D n e ((num, a, b) # ps) t \<longleftrightarrow> e \<le> t \<and> t + n \<le> a \<or> fits D n b ps t"
proof
  assume "fits D n e ((num, a, b) # ps) t"
  then show "e \<le> t \<and> t + n \<le> a \<or> fits D n b ps t" by (auto simp: fits_def)
next
  have b: "laid_out b ps D" and "e \<le> a" and "a < b" using assms(2) by auto
  have "b \<le> D" using b by (rule laid_out_le)
  have "b \<le> a'" if "(num', a', b') \<in> set ps" for num' a' b'
    using laid_out_bounds [OF b that] by simp
  then show "e \<le> t \<and> t + n \<le> a \<or> fits D n b ps t \<Longrightarrow> fits D n e ((num, a, b) # ps) t"
    using \<open>b \<le> D\<close> \<open>e \<le> a\<close> \<open>a < b\<close> assms(1) by (fastforce simp: fits_def)
qed

text \<open>
  C8: Given the partitions as the documentation describes them (in order, from their start to
  their end, inside the disk), the search succeeds exactly when \<open>n\<close> megabytes fit somewhere, and
  it returns the first position where they fit without touching a partition.
\<close>

theorem find_gap_first_fit:
  assumes "0 < n" and "laid_out e ps D"
  shows "case find_gap D n e ps of
      None \<Rightarrow> \<not> (\<exists>t. fits D n e ps t)
    | Some s \<Rightarrow> fits D n e ps s \<and> (\<forall>t. fits D n e ps t \<longrightarrow> s \<le> t)"
  using assms
proof (induction D n e ps rule: find_gap.induct)
  case (1 D n e)
  then show ?case by (auto simp: fits_def)
next
  case (2 D n e num a b ps)
  note cons = fits_Cons [OF 2(2) 2(3)]
  from 2(3) have b: "laid_out b ps D" by simp
  show ?case
  proof (cases "a - e \<ge> n")
    case True
    then have "fits D n e ((num, a, b) # ps) e" unfolding cons by simp
    moreover have "e \<le> t" if "fits D n e ((num, a, b) # ps) t" for t
      using that by (simp add: fits_def)
    ultimately show ?thesis using True by simp
  next
    case False
    then have "\<not> (e \<le> t \<and> t + n \<le> a)" for t by auto
    then have "fits D n e ((num, a, b) # ps) t \<longleftrightarrow> fits D n b ps t" for t
      unfolding cons by blast
    with False 2(1) [OF False 2(2) b] show ?thesis by (simp split: option.splits)
  qed
qed

theorem find_gap_first_fit_witness:
  "find_gap 1000 200 1 [(1, 1, 201), (2, 300, 500)] = Some 500
   \<and> fits 1000 200 1 [(1, 1, 201), (2, 300, 500)] 500"
proof -
  have "find_gap 1000 200 1 [(1, 1, 201), (2, 300, 500)] = Some 500" by simp
  with find_gap_first_fit [of 200 1 "[(1, 1, 201), (2, 300, 500)]" 1000] show ?thesis
    by simp
qed

section \<open>What get_partitions returns\<close>

lemma part_entry_end:
  assumes "part_entry ws = Inr (num, a, b)"
  shows "a \<le> b \<and> b \<le> a + 1"
proof -
  from assms obtain f where f: "int_of_float f = Inr a"
    "int_of_float (float_add f (9999 / 10000)) = Inr b"
    by (auto simp: part_entry_def rbind_Inr_iff)
  then obtain q where "f = Fin q" and a: "a = trunc q" and b: "b = trunc (q + 9999 / 10000)"
    by (cases f) (auto simp: int_of_float_def float_add_def)
  show ?thesis
    unfolding a b using trunc_mono [of q "q + 9999 / 10000"] trunc_mono [of "q + 9999 / 10000" "q + 1"]
      trunc_add_1 [of q]
    by linarith
qed

lemma parse_partitions_end:
  assumes "parse_partitions d ls (n, ps) = Inr (n', ps')"
    and "\<And>num a b. (num, a, b) \<in> set ps \<Longrightarrow> a \<le> b \<and> b \<le> a + 1"
  shows "(num, a, b) \<in> set ps' \<Longrightarrow> a \<le> b \<and> b \<le> a + 1"
  using assms
proof (induction ls arbitrary: n ps)
  case (Cons l ls)
  let ?ws = "split_on (CHR '':'') l"
  consider (disk) m where "parse_partitions d ls (m, ps) = Inr (n', ps')"
    | (part) p where "part_entry ?ws = Inr p" and "parse_partitions d ls (n, ps @ [p]) = Inr (n', ps')"
    using Cons.prems(2) by (auto simp: Let_def rbind_Inr_iff split: if_splits)
  then show ?case
  proof cases
    case disk
    with Cons show ?thesis by blast
  next
    case part
    obtain num' a' b' where p: "p = (num', a', b')" by (cases p)
    have "x \<le> y \<and> y \<le> x + 1" if "(i, x, y) \<in> set (ps @ [p])" for i x y
      using that part_entry_end [of ?ws num' a' b'] part(1) Cons.prems(3) [of i x y] p by auto
    then show ?thesis using Cons.IH [OF Cons.prems(1) part(2)] by blast
  qed
qed simp

text \<open>
  C39: Every partition \<open>get_partitions\<close> returns ends at its own start or one megabyte later,
  whatever \<open>parted\<close> says of its end: the end is computed from the start field.
\<close>

theorem get_partitions_end_is_start:
  assumes "get_partitions d E w = Some (Inr (n, ps), w')" and "(num, a, b) \<in> set ps"
  shows "a \<le> b \<and> b \<le> a + 1"
proof -
  from assms(1) obtain ls where "parse_partitions d ls (0, []) = Inr (n, ps)"
    unfolding get_partitions_def
    by (elim bnd_InrE) (auto simp: pipe_split_app lift_res_app split: sum.splits)
  from parse_partitions_end [OF this _ assms(2)] show ?thesis by simp
qed

definition parted_env :: env where
  "parted_env = plain_env\<lparr>run := \<lambda>_ _. Inr (0,
     ''BYT;'' @ [NL] @ ''/dev/sda:60MB:scsi:512:512:msdos:Disk;'' @ [NL]
       @ ''1:1.05MB:50MB:49MB:ext4::boot;'' @ [NL], [])\<rparr>"

theorem get_partitions_end_is_start_witness:
  "map_option fst (get_partitions ''/dev/sda'' parted_env start_world)
     = Some (Inr (60, [(1, 1, 2)])) \<and> (2::int) \<le> 1 + 1"
proof -
  have run: "map_option fst (get_partitions ''/dev/sda'' parted_env start_world)
     = Some (Inr (60, [(1, 1, 2)]))"
    by code_simp
  then obtain w' where "get_partitions ''/dev/sda'' parted_env start_world
     = Some (Inr (60, [(1, 1, 2)]), w')" by auto
  from get_partitions_end_is_start [OF this, of 1 1 2] run show ?thesis by simp
qed

section \<open>Waiting for the device node\<close>

text \<open>The events of \<open>k\<close> failed tests, each with its pause.\<close>

primrec pauses :: "string \<Rightarrow> nat \<Rightarrow> event list" where
  "pauses pdev 0 = []"
| "pauses pdev (Suc k) = pauses pdev k @ [Access pdev, Sleep 1]"

definition node_there :: "env \<Rightarrow> world \<Rightarrow> string \<Rightarrow> nat \<Rightarrow> bool" where
  "node_there E w pdev k \<longleftrightarrow> probe E (trace w @ pauses pdev k) (Access pdev)"

definition paused :: "world \<Rightarrow> string \<Rightarrow> nat \<Rightarrow> world" where
  "paused w pdev k = w\<lparr>trace := trace w @ pauses pdev k\<rparr>"

lemma wait_node_app:
  "wait_node count pdev E (paused w pdev k) =
     (if node_there E w pdev k then Some (Inr (), emit (Access pdev) (paused w pdev k))
      else if count \<ge> 10 then Some (Inl InstallerException,
        emit (Out (pdev @ '' did not get created properly'' @ [NL])) (emit (Access pdev) (paused w pdev k)))
      else wait_node (count + 1) pdev E (paused w pdev (Suc k)))"
  by (subst wait_node.simps) (auto simp: comp_simps test_def print_def node_there_def paused_def emit_def)

lemma wait_node_pauses:
  "k \<le> 10 \<Longrightarrow> (\<And>j. j < k \<Longrightarrow> \<not> node_there E w pdev j) \<Longrightarrow>
     wait_node 0 pdev E (paused w pdev 0) = wait_node k pdev E (paused w pdev k)"
proof (induction k)
  case (Suc k)
  then have "wait_node k pdev E (paused w pdev k) = wait_node (Suc k) pdev E (paused w pdev (Suc k))"
    by (subst wait_node_app) simp
  with Suc show ?case by simp
qed simp

text \<open>
  C13: The wait for the device node ends after at most ten pauses of a second. It succeeds at the
  first of eleven tests that finds the node, and raises \<open>InstallerException\<close> when all have failed.
\<close>

theorem wait_node_bounded:
  "wait_node 0 pdev E w =
     (case find (node_there E w pdev) [0..<11] of
        Some k \<Rightarrow> Some (Inr (), emit (Access pdev) (paused w pdev k))
      | None \<Rightarrow> Some (Inl InstallerException,
          emit (Out (pdev @ '' did not get created properly'' @ [NL]))
            (emit (Access pdev) (paused w pdev 10))))"
proof -
  have start: "paused w pdev 0 = w" by (simp add: paused_def)
  show ?thesis
  proof (cases "find (node_there E w pdev) [0..<11]")
    case None
    then have "\<not> node_there E w pdev j" if "j \<le> 10" for j
      using that by (auto simp: find_None_iff)
    with wait_node_pauses [of 10 E w pdev] None start show ?thesis
      by (simp add: wait_node_app)
  next
    case (Some k)
    then have "k \<le> 10" and "node_there E w pdev k" and "\<And>j. j < k \<Longrightarrow> \<not> node_there E w pdev j"
      by (auto simp: find_Some_iff)
    with wait_node_pauses [of k E w pdev] Some start show ?thesis
      by (simp add: wait_node_app)
  qed
qed

section \<open>Choosing the RAID device\<close>

lemma find_md_first:
  assumes "\<And>h i. probe E h (Exists (md_device i)) = taken i"
  shows "\<exists>w'. find_md is E w = Some (Inr (map_option md_device (find (\<lambda>i. \<not> taken i) is)), w')
    \<and> trace w' = trace w @ map (\<lambda>i. Exists (md_device i))
        (takeWhile taken is @ (case find (\<lambda>i. \<not> taken i) is of None \<Rightarrow> [] | Some i \<Rightarrow> [i]))"
proof (induction "is" arbitrary: w)
  case (Cons i "is")
  show ?case
    using Cons.IH [of "emit (Exists (md_device i)) w"] assms
    by (cases "taken i") (auto simp: comp_simps test_def)
qed (simp add: comp_simps)

lemma mdadm_state:
  "ignore (call_mdadm d c opts b) E w = Some (r, w') \<Longrightarrow>
     w' = emit (Popen ([''mdadm'', c, d] @ opts)) w"
  by (auto simp: ignore_def call_mdadm_def call_cmd_app bnd_app skip_app split: sum.splits if_splits)

text \<open>
  C12: When the answer to \<open>os.path.exists\<close> does not change, \<open>create_raid\<close> tries the names
  \<open>/dev/md0\<close> to \<open>/dev/md127\<close> in order, hands the first that does not exist to
  \<open>mdadm --create\<close> and returns it; when all exist it raises \<open>InstallerException\<close> and has run no program.
\<close>

theorem create_raid_first_free:
  assumes "\<And>h i. probe E h (Exists (md_device i)) = taken i"
    and "create_raid devs dest t m E w = Some (r, w')"
  shows "case find (\<lambda>i. \<not> taken i) [0..<128] of
      None \<Rightarrow> r = Inl InstallerException
        \<and> trace w' = trace w @ map (\<lambda>i. Exists (md_device i)) [0..<128]
            @ [Out (''No free MD device numbers'' @ [NL])]
    | Some i \<Rightarrow> (\<exists>es. trace w' = trace w @ map (\<lambda>i. Exists (md_device i)) (takeWhile taken [0..<128] @ [i])
            @ Popen ([''mdadm'', ''--create'', md_device i] @ raid_options devs) # es)
        \<and> (case r of Inl _ \<Rightarrow> True | Inr d \<Rightarrow> d = md_device i)"
proof (cases "find (\<lambda>i. \<not> taken i) [0..<128]")
  case None
  have t: "takeWhile taken [0..<128] = [0..<128]"
    using None by (auto simp: find_None_iff intro: takeWhile_eq_all_conv [THEN iffD2])
  obtain w1 where "find_md [0..<128] E w = Some (Inr None, w1)"
    and "trace w1 = trace w @ map (\<lambda>i. Exists (md_device i)) [0..<128]"
    using find_md_first [of E taken "[0..<128]" w, OF assms(1)] None t by auto
  with assms(2) None show ?thesis
    by (auto simp: create_raid_def bnd_app andthen_app print_def act_app raise_app)
next
  case (Some i)
  let ?opts = "raid_options devs" and ?d = "md_device i"
  obtain w1 where find: "find_md [0..<128] E w = Some (Inr (Some ?d), w1)"
    and w1: "trace w1 = trace w @ map (\<lambda>i. Exists (md_device i)) (takeWhile taken [0..<128] @ [i])"
    using find_md_first [of E taken "[0..<128]" w, OF assms(1)] Some by auto
  let ?w2 = "emit (Popen ([''mdadm'', ''--create'', ?d] @ ?opts)) w1"
  have "andthen (ignore (call_mdadm ?d ''--create'' ?opts False))
      (andthen (raid_contents ?d dest t m) (ret ?d)) E w1 = Some (r, w')"
    using assms(2) find by (simp add: create_raid_def bnd_app)
  then have "since (\<lambda>_. True) ?w2 E w' \<and> (case r of Inl _ \<Rightarrow> True | Inr d \<Rightarrow> d = ?d)"
  proof (cases rule: andthenE)
    case (raised e)
    then show ?thesis using mdadm_state [OF raised(1)] by simp
  next
    case (returned x w2)
    have "keeps (since (\<lambda>_. True) w2) (andthen (raid_contents ?d dest t m) (ret ?d))"
      by (intro keeps_rules)
    from keepsD [OF this, OF since_refl, OF returned(2)] returned(2) mdadm_state [OF returned(1)]
    show ?thesis by (auto elim!: andthenE simp: ret_app)
  qed
  with Some w1 show ?thesis by (auto simp: since_def)
qed

theorem create_raid_first_free_witness:
  "\<exists>w'. create_raid [''/dev/sda1''] ''none'' None None
      (plain_env\<lparr>probe := \<lambda>h e. e = Exists ''/dev/md0''\<rparr>) start_world = Some (Inr ''/dev/md1'', w')
    \<and> (\<exists>es. trace w' = trace start_world
        @ map (\<lambda>i. Exists (md_device i)) (takeWhile (\<lambda>i. md_device i = ''/dev/md0'') [0..<128] @ [1])
        @ Popen ([''mdadm'', ''--create'', md_device 1] @ raid_options [''/dev/sda1'']) # es)"
proof -
  let ?E = "plain_env\<lparr>probe := \<lambda>h e. e = Exists ''/dev/md0''\<rparr>"
  let ?taken = "\<lambda>i. md_device i = ''/dev/md0''"
  let ?run = "create_raid [''/dev/sda1''] ''none'' None None ?E start_world"
  have run: "map_option fst ?run = Some (Inr ''/dev/md1'')" by code_simp
  have first: "find (\<lambda>i. \<not> ?taken i) [0..<128] = Some 1" by code_simp
  from run obtain w' where w': "?run = Some (Inr ''/dev/md1'', w')" by auto
  have "probe ?E h (Exists (md_device i)) = ?taken i" for h i by simp
  from create_raid_first_free [of ?E ?taken, OF this w'] first
  have "\<exists>es. trace w' = trace start_world @ map (\<lambda>i. Exists (md_device i)) (takeWhile ?taken [0..<128] @ [1])
      @ Popen ([''mdadm'', ''--create'', md_device 1] @ raid_options [''/dev/sda1'']) # es"
    by simp
  with w' show ?thesis by blast
qed

section \<open>Partitions placed over existing ones\<close>

text \<open>The output of \<open>parted\<close> for a disk of \<open>D\<close> megabytes with one partition, from \<open>a\<close> to \<open>b\<close>.\<close>

definition listing :: "string \<Rightarrow> nat \<Rightarrow> nat \<Rightarrow> nat \<Rightarrow> nat \<Rightarrow> string \<Rightarrow> string \<Rightarrow> string" where
  "listing device D i a b disk_info part_info =
     ''BYT;'' @ NL # (device @ CHR '':'' # str_of_nat D @ ''MB'' @ CHR '':'' # disk_info) @
     NL # (str_of_nat i @ CHR '':'' # str_of_nat a @ ''MB'' @ CHR '':'' # str_of_nat b @ ''MB'' @
       CHR '':'' # part_info) @ [NL]"

lemma digits_no_sep: "\<not> is_digit c \<Longrightarrow> c \<notin> set (str_of_nat n)"
  using str_of_nat_digits [of n] by (auto simp: list_all_iff)

lemma no_digits [simp]: "\<not> is_digit (CHR '':'')" "\<not> is_digit NL" "\<not> is_digit (CHR ''B'')"
  by (simp_all add: is_digit_def)

lemma megabytes_of_nat: "megabytes (x # (str_of_nat n @ ''MB'') # ws) = Inr (Fin (of_nat n))"
  by (simp add: megabytes_def index_def drop_end_def)

lemma split_mb: "split_on (CHR '':'') (str_of_nat n @ CHR ''M'' # CHR ''B'' # CHR '':'' # s)
    = (str_of_nat n @ ''MB'') # split_on (CHR '':'') s"
  using split_on_append [of "CHR '':''" "str_of_nat n @ ''MB''" s] by (simp add: digits_no_sep)

lemma trunc_of_nat [simp]: "trunc (of_nat n) = int n"
  using trunc_of_int [of "int n"] by simp

lemma trunc_end [simp]: "trunc (of_nat n + 9999 / 10000) = int n"
  by (simp add: trunc_def floor_eq_iff)

lemma parse_listing:
  assumes "device \<noteq> []" and "\<not> isdigit device" and "device \<noteq> ''BYT;''"
    and "CHR '':'' \<notin> set device" and "NL \<notin> set (device @ disk_info @ part_info)"
  shows "parse_partitions device (split_on NL (listing device D i a b disk_info part_info)) (0, [])
    = Inr (int D, [(int i, int a, int a)])"
proof -
  let ?l1 = "device @ CHR '':'' # str_of_nat D @ ''MB'' @ CHR '':'' # disk_info"
  let ?l2 = "str_of_nat i @ CHR '':'' # str_of_nat a @ ''MB'' @ CHR '':'' # str_of_nat b @ ''MB'' @
    CHR '':'' # part_info"
  have lines: "split_on NL (listing device D i a b disk_info part_info) = [''BYT;'', ?l1, ?l2, []]"
    unfolding listing_def using assms(5) by (simp add: split_on_append digits_no_sep del: append_assoc)
  have l1: "split_on (CHR '':'') ?l1 = device # (str_of_nat D @ ''MB'') # split_on (CHR '':'') disk_info"
    using assms(4) by (simp add: split_on_append split_mb)
  have l2: "\<exists>ws. split_on (CHR '':'') ?l2 = str_of_nat i # (str_of_nat a @ ''MB'') # ws"
    by (simp add: split_on_append split_mb digits_no_sep)
  then obtain ws where l2: "split_on (CHR '':'') ?l2 = str_of_nat i # (str_of_nat a @ ''MB'') # ws" ..
  have entry: "part_entry (str_of_nat i # (str_of_nat a @ ''MB'') # ws) = Inr (int i, int a, int a)"
    by (simp add: part_entry_def megabytes_of_nat float_add_def)
  have number: "str_of_nat i \<noteq> device" using assms(2) by auto
  show ?thesis
    unfolding lines parse_partitions.simps Let_def l1 l2
    using assms(1,3) number entry str_of_nat_digits [of i]
    by (simp add: megabytes_of_nat isdigit_def is_digit_def [of "CHR ''B''"])
qed

text \<open>
  C40: On a disk of \<open>D\<close> megabytes whose only partition reaches from \<open>a\<close> to \<open>b\<close>, a new partition of
  \<open>n\<close> megabytes that does not fit before it is placed at \<open>a\<close> itself, on top of it.
\<close>

theorem new_partition_on_top:
  assumes "device \<noteq> []" and "\<not> isdigit device" and "device \<noteq> ''BYT;''"
    and "CHR '':'' \<notin> set device" and "NL \<notin> set (device @ disk_info @ part_info)"
    and "run E (trace w) [''parted'', ''-ms'', ''--align=opt'', ''--'', device, ''unit'', ''MB'', ''p'']
      = Inr (0, listing device D i a b disk_info part_info, err)"
    and "text_pipes E" and "int a - 1 < n" and "n \<le> int D - int a"
  shows "map_option fst (choose_location device (Some n) None E w)
    = Some (Inr (At (int a), At (int a + n)))"
proof -
  have "get_partitions device E w = Some (Inr (int D, [(int i, int a, int a)]),
      emit (Popen [''parted'', ''-ms'', ''--align=opt'', ''--'', device, ''unit'', ''MB'', ''p'']) w)"
    using parse_listing [OF assms(1-5), of D i a b] assms(6,7)
    by (simp add: get_partitions_def bnd_app call_parted_app pipe_split_app lift_res_app)
  with assms(8,9) show ?thesis
    by (simp add: choose_location_def bnd_app ret_app)
qed

theorem new_partition_on_top_witness:
  "map_option fst (choose_location ''/dev/sda'' (Some 200) None
      (plain_env\<lparr>run := \<lambda>_ _. Inr (0, listing ''/dev/sda'' 1000 1 1 500 [] [], [])\<rparr>) start_world)
    = Some (Inr (At 1, At 201))"
  using new_partition_on_top [of "''/dev/sda''" "[]" "[]"
      "plain_env\<lparr>run := \<lambda>_ _. Inr (0, listing ''/dev/sda'' 1000 1 1 500 [] [], [])\<rparr>" start_world
      1000 1 1 500 "[]" 200]
  by (simp add: isdigit_def is_digit_def plain_env_def)

section \<open>The fstab entries\<close>

lemma is_space_simps [simp]: "is_space (CHR '' '')" "is_space NL" "is_space TAB"
  by (simp_all add: is_space_def)

lemma words_join: "(\<And>x. x \<in> set ws \<Longrightarrow> is_word x) \<Longrightarrow> words (join '' '' ws) = ws"
proof (induction ws rule: induct_list012)
  case (3 x y ws)
  then show ?case by (simp add: words_word_sep)
qed (simp_all add: words_word)

lemma words_acc_head: "u \<noteq> [] \<Longrightarrow> \<exists>x xs. words_acc u s = (rev u @ x) # xs"
proof (induction u s rule: words_acc.induct)
  case (2 w c cs)
  then show ?case by (cases "is_space c") auto
qed simp

lemma strip_head:
  assumes "words l = d # ws"
  shows "strip l \<noteq> [] \<and> strip l ! 0 = d ! 0"
proof -
  have w: "words (strip l) = d # ws" using assms by (simp add: words_strip)
  then obtain c cs where c: "strip l = c # cs" by (cases "strip l") auto
  have "dropWhile is_space (strip l) = strip l"
    unfolding strip_def strip_if_def by (rule trim_end_idem)
  with c have "\<not> is_space c" by (metis dropWhile_eq_Cons_conv)
  then have "words (strip l) = words_acc [c] cs" by (simp add: c words_def)
  with words_acc_head [of "[c]" cs] w c show ?thesis by auto
qed

lemma fstab_line_words:
  assumes "words l = d # m # t # opts # ws" and "d ! 0 \<noteq> CHR ''#''"
  shows "fstab_line l = Inr (if t \<in> set ignore_fs_types then None
    else Some (m, \<lparr>mdev = d, mtype = t, mopts = Some opts\<rparr>))"
  using strip_head [OF assms(1)] assms by (simp add: fstab_line_def index_def words_strip)

lemma words_sep: "is_word x \<Longrightarrow> words (x @ [TAB] @ s) = x # words s"
  by (simp add: words_word_sep)

lemma plain_words: "is_word ''defaults''" "is_word ''0''" "is_word ''1''" "is_word ''2''"
    "is_word ''swap''" "is_word ''sw''"
  by (simp_all add: is_word_def is_space_def)

lemma fs_entry_words:
  assumes "is_word d" and "is_word m" and "is_word t"
  shows "\<exists>y. words (fs_entry d (Some m) t) = [d, m, t, ''defaults'', ''0'', y]"
  using assms plain_words by (simp add: fs_entry_def show_opt_def words_sep words_word del: append.simps)

lemma swap_entry_words:
  "is_word d \<Longrightarrow> words (swap_entry d) = [d, ''swap'', ''swap'', ''sw'', ''0'', ''0'']"
  using plain_words by (simp add: swap_entry_def words_sep words_word del: append.simps)

text \<open>
  What the shell and its \<open>echo\<close> do is not part of the repository. The documented behaviour the code
  relies on: of characters that have no meaning to the shell, blanks and tabs, whose first word is
  not an option, \<open>echo\<close> writes the words with one space between them and a newline, and \<open>>>\<close> puts
  that behind the contents of the file.
\<close>

text \<open>Letters, digits and the characters \<open>+ , - . / : @ _\<close>\<close>

definition plain_char :: "char \<Rightarrow> bool" where
  "plain_char c \<longleftrightarrow> (let n = (of_char c :: nat) in
     43 \<le> n \<and> n \<le> 58 \<or> 64 \<le> n \<and> n \<le> 90 \<or> n = 95 \<or> 97 \<le> n \<and> n \<le> 122)"

definition plain_word :: "string \<Rightarrow> bool" where
  "plain_word s \<longleftrightarrow> s \<noteq> [] \<and> list_all plain_char s"

definition echoes :: "env \<Rightarrow> bool" where
  "echoes E \<longleftrightarrow> (\<forall>h s old. list_all (\<lambda>c. plain_char c \<or> c = CHR '' '' \<or> c = TAB) s
       \<and> words s \<noteq> [] \<and> hd (hd (words s)) \<noteq> CHR ''-'' \<and> read_file E h ''/tmp/fstab'' = Inr old
     \<longrightarrow> read_file E (h @ [Shell (''echo '' @ s @ '' >>/tmp/fstab'')]) ''/tmp/fstab''
       = Inr (old @ join '' '' (words s) @ [NL]))"

text \<open>The tools that partition and format a device under \<open>/dev\<close> write to nothing but the device.\<close>

definition device_path :: "string \<Rightarrow> bool" where
  "device_path p \<longleftrightarrow> plain_word p \<and> startswith p ''/dev/'' \<and> \<not> contains p ''..''"

definition tools_keep_fstab :: "env \<Rightarrow> bool" where
  "tools_keep_fstab E \<longleftrightarrow> (\<forall>h device tool args e. device_path device
     \<and> e \<in> {Call [''mkfs.'' @ tool, device], Call [''mkswap'', ''-f'', device],
         Popen ([''parted'', ''-ms'', ''--align=opt'', ''--'', device] @ args)}
     \<longrightarrow> read_file E (h @ [e]) ''/tmp/fstab'' = read_file E h ''/tmp/fstab'')"

lemma plain_char_no_space: "plain_char c \<Longrightarrow> \<not> is_space c"
  by (auto simp: plain_char_def is_space_def Let_def)

lemma plain_word_is_word: "plain_word s \<Longrightarrow> is_word s"
  by (auto simp: plain_word_def is_word_def list_all_iff plain_char_no_space)

text \<open>Appending a line to a file of complete lines\<close>

definition whole_lines :: "string \<Rightarrow> bool" where
  "whole_lines c \<longleftrightarrow> c = [] \<or> last c = NL"

lemma file_lines_append: "whole_lines c \<Longrightarrow> file_lines (c @ s) = file_lines c @ file_lines s"
proof (induction c rule: file_lines.induct)
  case (2 x xs)
  then have xs: "whole_lines xs" and x: "x = NL \<or> xs \<noteq> []" by (auto simp: whole_lines_def split: if_splits)
  then have "file_lines xs \<noteq> []" if "x \<noteq> NL" using that concat_file_lines [of xs] by auto
  with 2 xs show ?case by (cases "file_lines xs") auto
qed simp

lemma parse_fstab_append:
  "parse_fstab m (ls @ ls') = (case parse_fstab m ls of Inl e \<Rightarrow> Inl e | Inr m' \<Rightarrow> parse_fstab m' ls')"
  by (induction m ls rule: parse_fstab.induct) (auto split: sum.split option.split)

text \<open>The mount table \<open>reread_fstab\<close> finds in \<open>/tmp/fstab\<close>\<close>

definition fstab_table :: "env \<Rightarrow> history \<Rightarrow> exn + mount_table" where
  "fstab_table E h = (case read_file E h ''/tmp/fstab'' of
       Inl e \<Rightarrow> Inl e | Inr c \<Rightarrow> parse_fstab [] (file_lines c))"

lemma join_no_newline: "\<forall>w \<in> set ws. NL \<notin> set w \<Longrightarrow> NL \<notin> set (join '' '' ws)"
  by (induction "'' ''" ws rule: join.induct) auto

lemma append_fstab_table:
  assumes E: "echoes E" and s: "list_all (\<lambda>c. plain_char c \<or> c = CHR '' '' \<or> c = TAB) s"
    and ws: "words s = d # ws" "startswith d ''/dev/''" and line: "\<And>l. words l = words s \<Longrightarrow> fstab_line l = Inr r"
    and old: "read_file E h ''/tmp/fstab'' = Inr old" "whole_lines old" "fstab_table E h = Inr m"
  shows "fstab_table E (h @ [Shell (''echo '' @ s @ '' >>/tmp/fstab'')])
    = Inr (case r of None \<Rightarrow> m | Some (mp, info) \<Rightarrow> dict_set m mp info)"
proof -
  let ?l = "join '' '' (words s)"
  have "words s \<noteq> []" and "hd (hd (words s)) \<noteq> CHR ''-''"
    using ws by (cases d; auto simp: startswith_def)+
  with E s old(1)
  have new: "read_file E (h @ [Shell (''echo '' @ s @ '' >>/tmp/fstab'')]) ''/tmp/fstab'' = Inr (old @ ?l @ [NL])"
    unfolding echoes_def by blast
  have words: "words (?l @ [NL]) = words s"
    using words_trailing [of "[NL]" ?l] words_join [OF words_is_word] by simp
  have "\<forall>w \<in> set (words s). NL \<notin> set w"
    using words_is_word [of _ s] by (fastforce simp: is_word_def list_all_iff)
  then have "file_lines (?l @ [NL]) = [?l @ [NL]]"
    using file_lines_line [OF join_no_newline, of "words s" "[]"] by simp
  with new old line [OF words] show ?thesis
    by (simp add: fstab_table_def file_lines_append parse_fstab_append split: option.split)
qed

lemma plain_line: "plain_word s \<Longrightarrow> list_all (\<lambda>c. plain_char c \<or> c = CHR '' '' \<or> c = TAB) s"
  by (auto simp: plain_word_def list_all_iff)

text \<open>The events of \<open>_set_dev_contents\<close>: the partition table is told of the kind of a partition.\<close>

definition flag_events :: "string \<Rightarrow> (string \<times> int) option \<Rightarrow> event list" where
  "flag_events dest part = (case part of None \<Rightarrow> [] | Some (partdev, partnum) \<Rightarrow>
     if partdev = [] then []
     else [Popen ([''parted'', ''-ms'', ''--align=opt'', ''--'', partdev] @ [''set'', str_of_int partnum, dest, ''on''])])"

lemma logs_call_parted:
  "logs (call_parted device cmds) [Popen ([''parted'', ''-ms'', ''--align=opt'', ''--'', device] @ cmds)]"
  by (rule logsI) (auto simp: call_parted_app Let_def emit_def split: sum.splits prod.splits if_splits)

lemma set_dev_contents_log:
  "logs (set_dev_contents d ''fs'' (Some t) mp part)
    [Call [''mkfs.'' @ t, d], Shell (''echo '' @ fs_entry d mp t @ '' >>/tmp/fstab'')]" (is ?fs)
  "logs (set_dev_contents d ''swap'' u mp part)
    (flag_events ''swap'' part @ [Shell (''echo '' @ swap_entry d @ '' >>/tmp/fstab''), Call [''mkswap'', ''-f'', d]])" (is ?swap)
proof -
  have append: "logs (append_fstab e) [Shell (''echo '' @ e @ '' >>/tmp/fstab'')]" for e
    using logs_bnd [OF logs_prim(4) logs_skip] by (simp add: append_fstab_def ignore_def)
  show ?fs
    using logs_block_Cons [OF logs_callu logs_block_Cons [OF append logs_block_Nil]]
    by (simp add: set_dev_contents_def)
  have flag: "logs (case part of None \<Rightarrow> skip | Some (partdev, partnum) \<Rightarrow> whenc (partdev \<noteq> [])
      (ignore (call_parted partdev [''set'', str_of_int partnum, ''swap'', ''on'']))) (flag_events ''swap'' part)"
    using logs_ignore [OF logs_call_parted]
    by (auto simp: flag_events_def whenc_def logs_skip split: option.split)
  show ?swap
    using logs_block_Cons [OF flag logs_block_Cons [OF logs_block_Cons [OF append logs_block_Cons [OF logs_callu logs_block_Nil]] logs_block_Nil]]
    by (simp add: set_dev_contents_def whenc_def)
qed

lemma flag_events_keep:
  assumes "tools_keep_fstab E" and "\<forall>p n. part = Some (p, n) \<longrightarrow> p = [] \<or> device_path p"
  shows "read_file E (h @ flag_events dest part) ''/tmp/fstab'' = read_file E h ''/tmp/fstab''"
  using assms by (fastforce simp: tools_keep_fstab_def flag_events_def split: option.split)

lemma formatted_in_table:
  assumes E: "echoes E" "tools_keep_fstab E"
    and d: "device_path device" and m: "plain_word mountpoint" and t: "plain_word fstype" "fstype \<notin> set ignore_fs_types"
    and old: "read_file E (trace w) ''/tmp/fstab'' = Inr old" "whole_lines old" "fstab_table E (trace w) = Inr m"
    and run: "set_dev_contents device ''fs'' (Some fstype) (Some mountpoint) part E w = Some (Inr (), w1)"
  shows "fstab_table E (trace w1)
    = Inr (dict_set m mountpoint \<lparr>mdev = device, mtype = fstype, mopts = Some ''defaults''\<rparr>)"
proof -
  have dev: "plain_word device" "startswith device ''/dev/''" using d by (simp_all add: device_path_def)
  let ?e = "fs_entry device (Some mountpoint) fstype" and ?h = "trace w @ [Call [''mkfs.'' @ fstype, device]]"
  from logsD [OF set_dev_contents_log(1) run]
  have tr: "trace w1 = ?h @ [Shell (''echo '' @ ?e @ '' >>/tmp/fstab'')]" by simp
  have h: "read_file E ?h ''/tmp/fstab'' = read_file E (trace w) ''/tmp/fstab''"
    by (rule E(2) [unfolded tools_keep_fstab_def, rule_format, where device = device and tool = fstype]) (simp add: d)
  have ok: "list_all (\<lambda>c. plain_char c \<or> c = CHR '' '' \<or> c = TAB) ?e"
    using plain_line [OF dev(1)] plain_line [OF m] plain_line [OF t(1)]
    by (simp add: fs_entry_def show_opt_def plain_char_def)
  obtain y where ws: "words ?e = [device, mountpoint, fstype, ''defaults'', ''0'', y]"
    using fs_entry_words plain_word_is_word dev(1) m t(1) by blast
  have "device ! 0 \<noteq> CHR ''#''" using dev(2) by (cases device) (auto simp: startswith_def)
  then have line: "fstab_line l = Inr (Some (mountpoint, \<lparr>mdev = device, mtype = fstype, mopts = Some ''defaults''\<rparr>))"
    if "words l = words ?e" for l
    using that fstab_line_words [of l device] t(2) unfolding ws by simp
  have table: "fstab_table E ?h = Inr m" using old(3) h by (simp add: fstab_table_def)
  show ?thesis
    using append_fstab_table [OF E(1) ok ws dev(2) line h [unfolded old(1)] old(2) table]
    unfolding tr by (simp only: option.case prod.case)
qed

lemma swap_not_in_table:
  assumes E: "echoes E" "tools_keep_fstab E" and d: "device_path device"
    and old: "read_file E (trace w) ''/tmp/fstab'' = Inr old" "whole_lines old" "fstab_table E (trace w) = Inr m"
    and run: "set_dev_contents device ''swap'' t mp part E w = Some (Inr (), w2)"
    and part: "\<forall>p n. part = Some (p, n) \<longrightarrow> p = [] \<or> device_path p"
  shows "fstab_table E (trace w2) = Inr m"
proof -
  have dev: "plain_word device" "startswith device ''/dev/''" using d by (simp_all add: device_path_def)
  let ?h = "trace w @ flag_events ''swap'' part"
  let ?e = "swap_entry device"
  let ?h1 = "?h @ [Shell (''echo '' @ ?e @ '' >>/tmp/fstab'')]"
  from logsD [OF set_dev_contents_log(2) run]
  have tr: "trace w2 = ?h1 @ [Call [''mkswap'', ''-f'', device]]" by simp
  have last: "fstab_table E (?h1 @ [Call [''mkswap'', ''-f'', device]]) = fstab_table E ?h1"
    unfolding fstab_table_def by (subst E(2) [unfolded tools_keep_fstab_def, rule_format, where device = device]) (simp_all add: d)
  have h: "read_file E ?h ''/tmp/fstab'' = read_file E (trace w) ''/tmp/fstab''"
    by (rule flag_events_keep [OF E(2) part])
  have ok: "list_all (\<lambda>c. plain_char c \<or> c = CHR '' '' \<or> c = TAB) ?e"
    using plain_line [OF dev(1)] by (simp add: swap_entry_def plain_char_def)
  note ws = swap_entry_words [OF plain_word_is_word [OF dev(1)]]
  have "device ! 0 \<noteq> CHR ''#''" using dev(2) by (cases device) (auto simp: startswith_def)
  then have line: "fstab_line l = Inr None" if "words l = words ?e" for l
    using that fstab_line_words [of l device "''swap''" "''swap''" "''sw''"] unfolding ws
    by (simp add: ignore_fs_types_def)
  have table: "fstab_table E ?h = Inr m" using old(3) h by (simp add: fstab_table_def)
  show ?thesis
    using append_fstab_table [OF E(1) ok ws dev(2) line h [unfolded old(1)] old(2) table]
    unfolding tr last by (simp only: option.case)
qed

text \<open>
  C11: What \<open>_set_dev_contents\<close> appends for a device is read back by \<open>reread_fstab\<close> as meant: after it
  has made a filesystem the table in \<open>/tmp/fstab\<close> is the one before with the mount point on that
  device, of that type, and after it has made a swap area the table is unchanged, the entry being
  skipped. The device is under \<open>/dev\<close>; it, the mount point and the type hold no character the shell
  treats specially,
  \<open>/tmp/fstab\<close> has complete lines, and the shell and the tools do what their manuals say.
\<close>

theorem fstab_entry_roundtrip:
  assumes "echoes E" and "tools_keep_fstab E"
    and "device_path device" and "plain_word mountpoint" and "plain_word fstype" and "fstype \<notin> set ignore_fs_types"
    and "read_file E (trace w) ''/tmp/fstab'' = Inr old" and "whole_lines old"
    and "fstab_table E (trace w) = Inr m" and "\<forall>p n. part = Some (p, n) \<longrightarrow> p = [] \<or> device_path p"
  shows "(set_dev_contents device ''fs'' (Some fstype) (Some mountpoint) part E w = Some (Inr (), w1) \<longrightarrow>
        fstab_table E (trace w1)
          = Inr (dict_set m mountpoint \<lparr>mdev = device, mtype = fstype, mopts = Some ''defaults''\<rparr>))
    \<and> (set_dev_contents device ''swap'' t mp part E w = Some (Inr (), w2) \<longrightarrow>
        fstab_table E (trace w2) = Inr m)"
  using formatted_in_table [OF assms(1-9)] swap_not_in_table [OF assms(1-3,7-9) _ assms(10)] by blast

text \<open>A shell that understands these commands: the file holds what they have appended.\<close>

definition echo_output :: "string \<Rightarrow> string" where
  "echo_output cmd = (let s = drop 5 (take (length cmd - 13) cmd) in
     if cmd = ''echo '' @ s @ '' >>/tmp/fstab'' then join '' '' (words s) @ [NL] else [])"

fun echo_event :: "event \<Rightarrow> string" where
  "echo_event (Shell cmd) = echo_output cmd"
| "echo_event e = []"

definition echo_env :: env where
  "echo_env = plain_env\<lparr>read_file := (\<lambda>h f. if f = ''/tmp/fstab''
     then Inr (''/dev/sda2 / ext4 defaults 0 1'' @ [NL] @ concat (map echo_event h)) else Inl OSError)\<rparr>"

lemma echo_env_ok: "echoes echo_env" "tools_keep_fstab echo_env"
  by (auto simp: echoes_def tools_keep_fstab_def echo_env_def plain_env_def echo_output_def Let_def)

theorem fstab_entry_roundtrip_witness:
  "\<exists>w1 m. set_dev_contents ''/dev/md0'' ''fs'' (Some ''ext4'') (Some ''/boot'') None echo_env start_world
      = Some (Inr (), w1)
    \<and> fstab_table echo_env (trace start_world) = Inr m \<and> dict_keys m = [''/'']
    \<and> fstab_table echo_env (trace w1) = Inr (dict_set m ''/boot''
        \<lparr>mdev = ''/dev/md0'', mtype = ''ext4'', mopts = Some ''defaults''\<rparr>)"
proof -
  let ?run = "set_dev_contents ''/dev/md0'' ''fs'' (Some ''ext4'') (Some ''/boot'') None echo_env start_world"
  have "map_option fst ?run = Some (Inr ())" by code_simp
  then obtain w1 where run: "?run = Some (Inr (), w1)" by auto
  have "map_sum id dict_keys (fstab_table echo_env (trace start_world)) = Inr [''/'']" by code_simp
  then obtain m where m: "fstab_table echo_env (trace start_world) = Inr m" "dict_keys m = [''/'']"
    by (cases "fstab_table echo_env (trace start_world)") auto
  have "read_file echo_env (trace start_world) ''/tmp/fstab'' = Inr (''/dev/sda2 / ext4 defaults 0 1'' @ [NL])"
    and "whole_lines (''/dev/sda2 / ext4 defaults 0 1'' @ [NL])"
    by (simp_all add: echo_env_def start_world_def whole_lines_def)
  note ok = fstab_entry_roundtrip [OF echo_env_ok _ _ _ _ this m(1), of "''/dev/md0''" "''/boot''" "''ext4''" None w1]
  have "device_path ''/dev/md0''" "plain_word ''/boot''" "plain_word ''ext4''" "''ext4'' \<notin> set ignore_fs_types"
    by code_simp+
  from ok [OF this] run m show ?thesis by auto
qed

end
