(* ===== verification/AutoInstall.thy ===== *)
theory AutoInstall
  imports PartitionFacts
begin

text \<open>
  \<open>def_user_installer\<close>, the example of an automatic installation: ask for consent, partition
  every disk, build RAID and LVM over the partitions, size the volumes, wait for the RAID and
  install.
\<close>

section \<open>Consent\<close>

definition autoinstall_help :: string where
  "autoinstall_help = [NL]
     @ ''This is a process that will clear out the partition tables on /dev/sd*'' @ [NL]
     @ ''and create /boot and / partitions on those devices, using RAID if two disks or more available.''
     @ [NL] @ ''LVM is used to hold the / partition and /boot is set up as 200MB.'' @ [NL]"

definition autoinstall_disk_use_help :: string where
  "autoinstall_disk_use_help = [NL]
     @ ''For creating / paritition, type '' @ [CHR 0x27] @ ''y'' @ [CHR 0x27] @ '' for using full disk space,''
     @ [NL] @ [CHR 0x27] @ ''n'' @ [CHR 0x27] @ '' for using 10GB.'' @ [NL]"

text \<open>
  The two questions and the first search for disks. \<open>None\<close>: the function returns at once;
  otherwise whether only 10 GB are to be used.
\<close>

definition ask_consent :: "bool option os" where
  "ask_consent =
     andthen (print autoinstall_help)
    (bnd (read_input ''Do you want to continue? (y/n) > '') (\<lambda>s1.
     if strip s1 \<noteq> ''y'' then ret None
     else andthen (print autoinstall_disk_use_help)
    (bnd (read_input ''Press appropiate key (y/n) > '') (\<lambda>s2.
     let d = strip s2 in
     if d \<noteq> ''y'' \<and> d \<noteq> ''n'' then andthen (print ''Returning....'') (ret None)
     else bnd (find_devices (Some 1) None) (\<lambda>dev_lst.
       if dev_lst = [] then andthen (print ''No scsi devices are connected'') (ret None)
       else andthen
         (if d = ''y'' then print ''Allocating full disk space ...''
          else print (''Allocating 10GB size ...'' @ [NL]))
         (ret (Some (d = ''n''))))))))"

section \<open>Disks\<close>

definition prepare_system :: "string list os" where
  "prepare_system =
     andthen (block [
       print ''Setting up temporary fstab'',
       callu [''cp'', ''/etc/fstab'', ''/tmp/fstab''],
       print ''Stopping all LVM and RAID devices'',
       clean_system])
    (bnd get_base_devs (\<lambda>basedevs.
     bnd (find_devices None (Some 1)) (\<lambda>dev_lst.
     andthen (for_each dev_lst (\<lambda>d.
       ignore (call_cmd (TupleC [''mdadm'', ''--zero-superblock'', d]) True)))
     (ret (sort basedevs)))))"

text \<open>\<open>count\<close> is the empty string for the first disk, then 2, 3, ...\<close>

definition count_text :: "nat option \<Rightarrow> string" where
  "count_text count = (case count of None \<Rightarrow> [] | Some n \<Rightarrow> str_of_nat n)"

definition next_count :: "nat option \<Rightarrow> nat option" where
  "next_count count = Some (case count of None \<Rightarrow> 2 | Some n \<Rightarrow> n + 1)"

definition setup_disk :: "string \<Rightarrow> string \<Rightarrow> string \<Rightarrow>
    nat option \<times> (string \<times> string) list \<Rightarrow> (nat option \<times> (string \<times> string) list) os" where
  "setup_disk dest1 dest2 d = (\<lambda>(count, devs).
     andthen (block [
       print (''Clearing partition table on '' @ d),
       clear_partition_table d ''msdos'',
       write_out (''Formatting boot device on '' @ d @ ''... '')])
    (bnd (ask efi_system) (\<lambda>efi.
     bnd (if efi
          then create_partition d (Some 200) ''primary'' ''fs'' None (Some ''vfat'')
                 (Some (''/boot/efi'' @ count_text count))
          else create_partition d (Some 200) ''primary'' dest1 None (Some ''ext4'') (Some ''/boot'')) (\<lambda>d1.
     andthen (block [
       print (''created '' @ d1),
       write_out (''Formatting LVM device on '' @ d @ ''... '')])
    (bnd (create_partition d None ''primary'' dest2 (Some (At 201, AtText ''-2s'')) None None) (\<lambda>d2.
     andthen (print (''created '' @ d2))
       (ret (if efi then next_count count else count, devs @ [(d1, d2)]))))))))"

definition setup_disks :: "string \<Rightarrow> string \<Rightarrow> string list \<Rightarrow> (string \<times> string) list os" where
  "setup_disks dest1 dest2 disks =
     bnd (fold_comp (setup_disk dest1 dest2) disks (None, [])) (\<lambda>(_, devs). ret devs)"

section \<open>RAID and LVM\<close>

definition make_boot_raid :: "bool \<Rightarrow> (string \<times> string) list \<Rightarrow> unit os" where
  "make_boot_raid raid devs =
     bnd (ask efi_system) (\<lambda>efi. whenc (\<not> efi \<and> raid)
       (andthen (write_out ''Creating RAID boot device... '')
       (bnd (create_raid (map fst devs) ''fs'' (Some ''ext4'') (Some ''/boot'')) (\<lambda>bootdev.
        print (''created '' @ bootdev)))))"

definition make_lvm_device :: "bool \<Rightarrow> (string \<times> string) list \<Rightarrow> string os" where
  "make_lvm_device raid devs =
     (if raid then
        andthen (write_out ''Creating RAID LVM device... '')
       (bnd (create_raid (map snd devs) ''lvm'' None None) (\<lambda>lvmdev.
        andthen (print (''created '' @ lvmdev)) (ret lvmdev)))
      else lift_res (rbind (index devs 0) (\<lambda>d. Inr (snd d))))"

definition make_group :: "bool \<Rightarrow> (string \<times> string) list \<Rightarrow> (string \<times> string) os" where
  "make_group raid devs =
     andthen clean_system
    (andthen (make_boot_raid raid devs)
    (bnd (make_lvm_device raid devs) (\<lambda>lvmdev.
     andthen (block [
       clean_vgs,
       ignore (call_cmd (TupleC [''vgchange'', ''-a'', ''n'']) True),
       print ''Creating volume group vg01''])
    (bnd (create_vg [lvmdev] ''vg01'') (\<lambda>vg.
     andthen (print ''Creating logical volume root'') (ret (vg, lvmdev)))))))"

section \<open>Sizes\<close>

text \<open>The loop over the output of \<open>free\<close>: the memory in thousands, rounded up by \<open>999\<close>.\<close>

fun scan_free :: "string list \<Rightarrow> rat \<Rightarrow> exn + rat" where
  "scan_free [] memcount = Inr memcount"
| "scan_free (l # ls) memcount =
     (case words l of
        [] \<Rightarrow> scan_free ls memcount
      | w # ws \<Rightarrow>
          if w = ''Mem:'' then
            rbind (rbind (index ws 0) int_of_str) (\<lambda>n. scan_free ls ((of_int n + 999) / 1000))
          else scan_free ls memcount)"

definition read_memory :: "rat os" where
  "read_memory =
     bnd (popen [''free'']) (\<lambda>(rc, out, err).
       if rc \<noteq> 0 then
         bnd (lift_res (text_of err)) (\<lambda>s. andthen (block [
           print (''Error finding free memory: '' @ s),
           print ''Unable to calculate memory for swap space.'']) (ret 0))
       else bnd (pipe_split NL out) (\<lambda>ls. lift_res (scan_free ls 0)))"

text \<open>\<open>re.sub(' +', ' ', s)\<close>\<close>

fun squeeze :: "bool \<Rightarrow> string \<Rightarrow> string" where
  "squeeze after [] = []"
| "squeeze after (c # cs) =
     (if c = CHR '' '' then (if after then squeeze True cs else c # squeeze True cs)
      else c # squeeze False cs)"

text \<open>Nine tenths of the size of the physical volume, in megabytes.\<close>

definition usable_size :: "pyfloat \<Rightarrow> exn + int" where
  "usable_size f =
     rbind (int_of_float (float_mult f (10 / 100))) (\<lambda>det_sz.
     int_of_float (float_add f (- of_int det_sz)))"

definition pv_size :: "string \<Rightarrow> exn + int" where
  "pv_size out =
     (let s = strip_if (\<lambda>c. c = NL) (strip_if (\<lambda>c. c = CHR '' '') (squeeze False out)) in
      rbind (index (split_on (CHR '' '') s) 4) (\<lambda>v.
      rbind (float_of_str v) usable_size))"

text \<open>
  The sizes of the root and swap volumes: \<open>None\<close> when the space does not suffice. Without
  a memory size \<open>lv_rt_sz\<close> is never assigned.
\<close>

definition plan_volumes :: "bool \<Rightarrow> int \<Rightarrow> rat \<Rightarrow> exn + (int \<times> rat) option" where
  "plan_volumes ten_gb sz memcount =
     (if memcount = 0 then Inl UnboundLocalError
      else
        let (lv_rt_sz, mem) =
          (if sz > trunc (memcount * 2) then (sz - trunc (memcount * 2), memcount) else (sz, 0))
        in
          if lv_rt_sz < 10000 then Inr None
          else Inr (Some (if ten_gb then 10000 else lv_rt_sz, mem)))"

section \<open>Volumes\<close>

definition make_swap :: "string \<Rightarrow> rat \<Rightarrow> int \<Rightarrow> unit os" where
  "make_swap vg memcount shown =
     (if memcount = 0 then print ''Not creating logical volume swap''
      else andthen
        (print (''Creating logical volume swap at 2 * memory size, or '' @ str_of_int shown @ ''MB''))
        (ignore (create_lv vg (PyFloat (memcount * 2)) ''swap'' ''swap'' None None)))"

definition make_volumes :: "string \<Rightarrow> bool \<Rightarrow> int \<Rightarrow> rat \<Rightarrow> unit os" where
  "make_volumes vg ten_gb lv_rt_sz memcount =
     andthen (block [
       print (''Logical volume create for Root is '' @ str_of_int lv_rt_sz @ ''MB''),
       print (''Logical volume create for swap is '' @ str_of_int (trunc (memcount * 2)) @ ''MB'')])
     (if ten_gb then block [
        print ''10 GB Create'',
        ignore (create_lv vg (PyInt 10000) ''root'' ''fs'' (Some ''ext4'') (Some ''/'')),
        make_swap vg memcount (trunc memcount)]
      else block [
        print (''Allocate full disk'' @ str_of_int lv_rt_sz),
        ignore (create_lv vg (PyInt lv_rt_sz) ''root'' ''fs'' (Some ''ext4'') (Some ''/'')),
        make_swap vg memcount (trunc (memcount * 2))])"

text \<open>\<open>True\<close>: the volumes are there; \<open>False\<close>: the function returns at once.\<close>

definition size_and_make_volumes :: "bool \<Rightarrow> string \<Rightarrow> string \<Rightarrow> bool os" where
  "size_and_make_volumes ten_gb vg lvmdev =
     bnd read_memory (\<lambda>memcount.
     bnd (call_cmd (TupleC [''pvdisplay'', ''-C'', ''--noheadings'', ''--nosuffix'', ''--units'', ''M'',
       lvmdev]) True) (\<lambda>sz.
     if \<not> data_true sz then andthen (print ''Created volume group is not good'') (ret False)
     else
       bnd (lift_res (rbind (text_of sz) pv_size)) (\<lambda>size.
       bnd (lift_res (plan_volumes ten_gb size memcount)) (\<lambda>plan. case plan of
         None \<Rightarrow> andthen (print ''Insufficiant Space for Installtion'') (ret False)
       | Some (lv_rt_sz, mem) \<Rightarrow> andthen (make_volumes vg ten_gb lv_rt_sz mem) (ret True)))))"

section \<open>Waiting for the RAID\<close>

definition resync_cmd :: "string list" where
  "resync_cmd = [''grep'', ''resync'', ''/proc/mdstat'']"

definition resync_round :: "unit \<Rightarrow> (unit + unit) os" where
  "resync_round = (\<lambda>_. bnd (call_cmd (TupleC resync_cmd) True) (\<lambda>out_resync.
     if \<not> data_true out_resync then ret (Inr ())
     else andthen (block [
       print ''RAID devices under resyncing.This may go for long time...'',
       write_out ([CHR 0x1B] @ ''[F''),
       act (Sleep 1)]) (ret (Inl ()))))"

definition wait_resync :: "unit os" where
  "wait_resync = iterate resync_round ()"

section \<open>The installer\<close>

definition finish_install :: "unit os" where
  "finish_install = block [
     print ''Mounting filesystems'',
     reread_fstab ''/tmp/fstab'',
     mount_all,
     modify_st (\<lambda>w. w\<lparr>installed := True\<rparr>),
     print ''Installing filesystem image'',
     install,
     print ''Setting up grub'',
     do_grub DefaultList,
     print ''Setting hostname'',
     set_hostname False,
     print ''Install is complete'']"

definition auto_install :: "bool \<Rightarrow> unit os" where
  "auto_install ten_gb =
     bnd prepare_system (\<lambda>basedevs.
     let raid = (length basedevs \<ge> 2);
         dest1 = (if raid then ''raid'' else ''fs'');
         dest2 = (if raid then ''raid'' else ''lvm'');
         disks = (if raid then basedevs else take 1 basedevs)
     in
     bnd (setup_disks dest1 dest2 disks) (\<lambda>devs.
     bnd (make_group raid devs) (\<lambda>(vg, lvmdev).
     bnd (size_and_make_volumes ten_gb vg lvmdev) (\<lambda>made.
     whenc made (andthen (whenc raid wait_resync) finish_install)))))"

definition def_user_installer :: "unit os" where
  "def_user_installer =
     bnd ask_consent (\<lambda>choice. case choice of None \<Rightarrow> skip | Some ten_gb \<Rightarrow> auto_install ten_gb)"

section \<open>What it keeps\<close>

context full_contract
begin

lemma keeps_ask_consent [keeps_rules]: "keeps P ask_consent"
  unfolding ask_consent_def Let_def by (intro keeps_rules all_ok)

lemma keeps_prepare_system [keeps_rules]: "keeps P prepare_system"
  unfolding prepare_system_def by (intro keeps_rules all_ok)

lemma keeps_setup_disks [keeps_rules]: "keeps P (setup_disks d1 d2 ds)"
  unfolding setup_disks_def setup_disk_def by (intro keeps_rules all_ok)

lemma keeps_make_group [keeps_rules]: "keeps P (make_group raid devs)"
  unfolding make_group_def make_boot_raid_def make_lvm_device_def by (intro keeps_rules all_ok)

lemma keeps_read_memory [keeps_rules]: "keeps P read_memory"
  unfolding read_memory_def by (intro keeps_rules all_ok)

lemma keeps_make_swap [keeps_rules]: "keeps P (make_swap vg m n)"
  unfolding make_swap_def by (intro keeps_rules all_ok)

lemma keeps_make_volumes [keeps_rules]: "keeps P (make_volumes vg b n m)"
  unfolding make_volumes_def by (intro keeps_rules all_ok)

lemma keeps_size_and_make_volumes [keeps_rules]: "keeps P (size_and_make_volumes b vg d)"
  unfolding size_and_make_volumes_def by (intro keeps_rules all_ok)

lemma keeps_wait_resync [keeps_rules]: "keeps P wait_resync"
  unfolding wait_resync_def resync_round_def by (intro keeps_rules all_ok)

lemma keeps_finish_install [keeps_rules]: "keeps P finish_install"
  unfolding finish_install_def by (intro keeps_rules keeps_modify_st set_installed all_ok)

lemma keeps_auto_install [keeps_rules]: "keeps P (auto_install b)"
  unfolding auto_install_def Let_def by (intro keeps_rules)

lemma keeps_def_user_installer [keeps_rules]: "keeps P def_user_installer"
  unfolding def_user_installer_def by (intro keeps_rules)

end

end
