(* ===== verification/Menu.thy ===== *)
theory Menu
  imports AutoInstall
begin

text \<open>
  \<open>default_installer\<close>: the start of the program, the optional \<open>/user_installer.py\<close>, and the
  loop over the main menu and the recovery menu. The function of \<open>/user_installer.py\<close> is a
  parameter.
\<close>

section \<open>The menus\<close>

datatype menu = MainMenu | RecoveryMenu

definition main_prompt :: "unit os" where
  "main_prompt = bnd (ask efi_system) (\<lambda>efi. block [
     (if efi then print ''What would you like to do? (EFI system)''
      else print ''What would you like to do?''),
     print '' 1 - Partition your hard drive(s)'',
     print '' 2 - Install image and GRUB on the system '',
     print '' 3 - Recovery sub-menu'',
     print '' 5 - Auto-install'',
     print '' 9 - Restart the installer'',
     print '' 0 - Reboot'',
     write_out ''Press the key then enter: ''])"

definition recovery_prompt :: "unit os" where
  "recovery_prompt = block [
     print '' 1 - Set up from an existing root partition'',
     print '' 2 - Re-install grub'',
     print '' 3 - Run a shell in the installed system'',
     print ('' 4 - Run a shell in the CD'' @ [CHR 0x27] @ ''s root directory''),
     print ('' 5 - Set the installed system'' @ [CHR 0x27] @ ''s hostname''),
     print '' 0 - Return to main menu'',
     write_out ''Press the key then enter: '']"

text \<open>What a choice does: \<open>Inl\<close> the next menu, or \<open>Inr ()\<close> when the loop is left.\<close>

definition main_action :: "int \<Rightarrow> (menu + unit) os" where
  "main_action v =
     (if v = 1 then andthen partition (ret (Inl MainMenu))
      else if v = 2 then
        andthen (block [install, do_grub AskUser, set_hostname True]) (ret (Inl MainMenu))
      else if v = 3 then ret (Inl RecoveryMenu)
      else if v = 5 then andthen (block [def_user_installer, unmount_all]) (ret (Inr ()))
      else if v = 9 then andthen unmount_all (ret (Inr ()))
      else if v = 0 then
        andthen (block [unmount_all, callu [''reboot'', ''-f'']]) (ret (Inl MainMenu))
      else ret (Inl MainMenu))"

definition recovery_action :: "int \<Rightarrow> (menu + unit) os" where
  "recovery_action v =
     (if v = 1 then
        andthen (block [read_devs True, setup_from_existing_install None]) (ret (Inl RecoveryMenu))
      else if v = 2 then andthen (do_grub AskUser) (ret (Inl RecoveryMenu))
      else if v = 3 then andthen (callu [''chroot'', mpref]) (ret (Inl RecoveryMenu))
      else if v = 4 then
        andthen (ignore (call_env [''/bin/sh''] ''PS1'' ''installer-cd# '')) (ret (Inl RecoveryMenu))
      else if v = 5 then andthen (set_hostname True) (ret (Inl RecoveryMenu))
      else if v = 0 then ret (Inl MainMenu)
      else ret (Inl RecoveryMenu))"

definition menu_action :: "menu \<Rightarrow> int \<Rightarrow> (menu + unit) os" where
  "menu_action m v = (case m of MainMenu \<Rightarrow> main_action v | RecoveryMenu \<Rightarrow> recovery_action v)"

text \<open>A line that is not a number shows the menu again.\<close>

definition menu_body :: "menu \<Rightarrow> (menu + unit) os" where
  "menu_body m =
     andthen (case m of MainMenu \<Rightarrow> main_prompt | RecoveryMenu \<Rightarrow> recovery_prompt)
    (bnd read_stdin_line (\<lambda>line. case int_of_str line of
       Inl _ \<Rightarrow> ret (Inl m)
     | Inr v \<Rightarrow> menu_action m v))"

section \<open>Exceptions\<close>

definition str_of_exn :: "env \<Rightarrow> exn \<Rightarrow> string" where
  "str_of_exn E e = (case e of
       CmdErr cmd rc out err \<Rightarrow> cmderr_str cmd rc out err
     | InstallerException \<Rightarrow> []
     | _ \<Rightarrow> exn_str E e)"

text \<open>\<open>except Exception\<close> catches neither a \<open>KeyboardInterrupt\<close> nor a \<open>SystemExit\<close>.\<close>

definition is_exception :: "exn \<Rightarrow> bool" where
  "is_exception e \<longleftrightarrow> (case e of KeyboardInterrupt \<Rightarrow> False | SystemExit _ \<Rightarrow> False | _ \<Rightarrow> True)"

definition report :: "string \<Rightarrow> exn \<Rightarrow> unit os" where
  "report s e =
     bnd (ask (\<lambda>E. str_of_exn E e)) (\<lambda>msg.
     bnd (\<lambda>E w. Some (Inr (format_tb E (trace w)), w)) (\<lambda>tb.
     print (s @ msg @ [NL] @ tb)))"

definition menu_handler :: "menu \<Rightarrow> exn \<Rightarrow> (menu + unit) os" where
  "menu_handler m e =
     (if e = KeyboardInterrupt \<or> e = InstallerException then ret (Inl m)
      else if is_exception e then andthen (report ''Unknown error: '' e) (ret (Inl m))
      else raise e)"

definition menu_round :: "menu \<Rightarrow> (menu + unit) os" where
  "menu_round m = catch (menu_body m) (menu_handler m)"

section \<open>The program\<close>

definition run_user_installer :: "unit os \<Rightarrow> unit os" where
  "run_user_installer user =
     bnd (test (Exists ''/user_installer.py'')) (\<lambda>there. whenc there
       (catch user (\<lambda>e.
          if is_exception e
          then andthen (report ''Unknown error from user installer: '' e) (raise (SystemExit 1))
          else raise e)))"

definition greeting :: "unit os" where
  "greeting = block [
     print ''Welcome to the MontaVista Installer!  This installer will allow'',
     print ''you to partition your disk and install a generated MontaVista Linux'',
     print ''image onto your machine.'']"

definition default_installer :: "unit os \<Rightarrow> unit os" where
  "default_installer user = block [
     installer_init,
     run_user_installer user,
     greeting,
     iterate menu_round MainMenu]"

section \<open>What a choice keeps\<close>

context harmless_contract
begin

lemma keeps_menu_prompts [keeps_rules]: "keeps P main_prompt" "keeps P recovery_prompt"
  unfolding main_prompt_def recovery_prompt_def by (intro keeps_rules harmless_ok; simp)+

lemma keeps_report [keeps_rules]: "keeps P (report s e)"
  unfolding report_def by (intro keeps_rules harmless_ok keepsI) auto

lemma keeps_menu_handler [keeps_rules]: "keeps P (menu_handler m e)"
  unfolding menu_handler_def by (intro keeps_rules)

end

context mount_contract
begin

lemma keeps_recovery_action [keeps_rules]: "keeps P (recovery_action v)"
  unfolding recovery_action_def by (intro keeps_rules harmless_ok) simp_all

text \<open>The choices of the main menu other than 1 and 5\<close>

lemma keeps_main_action_other: "v \<noteq> 1 \<Longrightarrow> v \<noteq> 5 \<Longrightarrow> keeps P (main_action v)"
  unfolding main_action_def by (intro keeps_rules harmless_ok) simp_all

end

context full_contract
begin

lemma keeps_main_action [keeps_rules]: "keeps P (main_action v)"
  unfolding main_action_def by (intro keeps_rules all_ok)

lemma keeps_menu_action [keeps_rules]: "keeps P (menu_action m v)"
  unfolding menu_action_def by (cases m) (auto intro: keeps_rules)

lemma keeps_menu_body [keeps_rules]: "keeps P (menu_body m)"
  unfolding menu_body_def by (cases m) (auto intro!: keeps_rules all_ok)

lemma keeps_menu_round [keeps_rules]: "keeps P (menu_round m)"
  unfolding menu_round_def by (intro keeps_rules)

lemma keeps_greeting [keeps_rules]: "keeps P greeting"
  unfolding greeting_def by (intro keeps_rules all_ok)

lemma keeps_default_installer: "keeps P user \<Longrightarrow> keeps P (default_installer user)"
  unfolding default_installer_def run_user_installer_def by (intro keeps_rules all_ok)

end

section \<open>The menu as a state machine\<close>

text \<open>
  One step of the loop: a round that does not leave it. \<open>reached\<close> are the states the loop can
  be in, at its head, after some rounds.
\<close>

inductive menu_step :: "env \<Rightarrow> menu \<times> world \<Rightarrow> menu \<times> world \<Rightarrow> bool" for E where
  one_round: "menu_round m E w = Some (Inr (Inl m'), w') \<Longrightarrow> menu_step E (m, w) (m', w')"

inductive_simps menu_step_iff: "menu_step E (m, w) (m', w')"

inductive reached :: "env \<Rightarrow> world \<Rightarrow> menu \<times> world \<Rightarrow> bool" for E w0 where
  init: "reached E w0 (MainMenu, w0)"
| step: "reached E w0 s \<Longrightarrow> menu_step E s s' \<Longrightarrow> reached E w0 s'"

lemma reached_keeps:
  assumes "\<And>m. keeps P (menu_round m)" and "P E w0" and "reached E w0 s"
  shows "P E (snd s)"
  using assms(3)
proof (induction rule: reached.induct)
  case init
  then show ?case using assms(2) by simp
next
  case (step s s')
  from step(2) obtain m w m' w' where s: "s = (m, w)" "s' = (m', w')"
    and run: "menu_round m E w = Some (Inr (Inl m'), w')"
    by (cases rule: menu_step.cases)
  from keepsD [OF assms(1), OF _ run] step s show ?case by simp
qed

text \<open>The loop that ends was in a reached state before its last round.\<close>

lemma iterate_reached:
  assumes "iterate menu_round MainMenu E w0 = Some (r, w')"
  shows "\<exists>m w. reached E w0 (m, w) \<and>
    (case r of Inl e \<Rightarrow> menu_round m E w = Some (Inl e, w')
     | Inr x \<Rightarrow> menu_round m E w = Some (Inr (Inr x), w'))"
  by (rule iterate_invariant [where I = "\<lambda>m w. reached E w0 (m, w)", OF assms reached.init])
    (auto intro: reached.step menu_step.one_round)

end
