(* ===== verification/MenuFacts.thy ===== *)
theory MenuFacts
  imports Menu
begin

text \<open>
  Properties of the program as a whole: the mount table in every reachable state, which
  choices reformat a disk, what errors do to the menu, and how the program starts and stops.
\<close>

section \<open>The mount table\<close>

text \<open>
  C1: In every state the menu reaches from an empty mount table, the table is empty or one that
  \<open>reread_fstab\<close> accepted: no mount point twice, \<open>/\<close> there, \<open>/boot/efi\<close> there on an EFI system.
\<close>

theorem mount_table_always_accepted:
  assumes "mounts w0 = []" and "reached E w0 (m, w)"
  shows "mounts w = [] \<or> mounts_ok E (mounts w)"
proof -
  have "state_ok E w0" using assms(1) by (simp add: state_ok_def)
  from reached_keeps [OF table_kept.keeps_menu_round this assms(2)] show ?thesis
    by (simp add: state_ok_def)
qed

text \<open>The user partitions the disk; \<open>mvpartition\<close> leaves an fstab with one filesystem.\<close>

definition partition_env :: env where
  "partition_env = plain_env\<lparr>
     read_file := \<lambda>h f. Inr (''/dev/sda1 / ext4 defaults 0 1'' @ [NL]), typed := \<lambda>h. Inr ''1''\<rparr>"

theorem mount_table_always_accepted_witness:
  "\<exists>w. reached partition_env start_world (MainMenu, w)
     \<and> mounts w = [(''/'', \<lparr>mdev = ''/dev/sda1'', mtype = ''ext4'', mopts = Some ''defaults''\<rparr>)]
     \<and> (mounts w = [] \<or> mounts_ok partition_env (mounts w))"
proof -
  let ?E = partition_env
  have "map_option (\<lambda>(r, w). (r, mounts w)) (menu_round MainMenu ?E start_world)
    = Some (Inr (Inl MainMenu),
        [(''/'', \<lparr>mdev = ''/dev/sda1'', mtype = ''ext4'', mopts = Some ''defaults''\<rparr>)])"
    by code_simp
  then obtain w where "menu_step ?E (MainMenu, start_world) (MainMenu, w)"
    and w: "mounts w = [(''/'', \<lparr>mdev = ''/dev/sda1'', mtype = ''ext4'', mopts = Some ''defaults''\<rparr>)]"
    by (auto simp: menu_step_iff)
  then have r: "reached ?E start_world (MainMenu, w)" by (blast intro: reached.intros)
  have "mounts start_world = []" by (simp add: start_world_def)
  from mount_table_always_accepted [OF this r] r w show ?thesis by blast
qed

section \<open>Reformatting\<close>

text \<open>The number the user types when the menu \<open>m\<close> is shown, if it is one.\<close>

definition menu_prompt :: "menu \<Rightarrow> unit os" where
  "menu_prompt m = (case m of MainMenu \<Rightarrow> main_prompt | RecoveryMenu \<Rightarrow> recovery_prompt)"

definition choice :: "menu \<Rightarrow> env \<Rightarrow> world \<Rightarrow> int option" where
  "choice m E w = (case menu_prompt m E w of
       Some (Inr _, w1) \<Rightarrow> (case typed E (trace w1) of
           Inr line \<Rightarrow> (case int_of_str line of Inr v \<Rightarrow> Some v | Inl _ \<Rightarrow> None)
         | Inl _ \<Rightarrow> None)
     | _ \<Rightarrow> None)"

lemma menu_body_cases:
  assumes "menu_body m E w = Some (r, w')"
  obtains (other) w1 where "menu_prompt m E w = Some (Inr (), w1)" and "w' = emit Readline w1"
      and "choice m E w = None" and "r = Inr (Inl m) \<or> (\<exists>e. r = Inl e)"
    | (chosen) w1 v where "menu_prompt m E w = Some (Inr (), w1)" and "choice m E w = Some v"
      and "menu_action m v E (emit Readline w1) = Some (r, w')"
proof -
  have "completes E (menu_prompt m)"
    unfolding menu_prompt_def main_prompt_def recovery_prompt_def
    by (cases m) (auto intro!: completes_rules)
  then obtain w1 where p: "menu_prompt m E w = Some (Inr (), w1)" by (fastforce dest: completesD)
  have run: "(bnd read_stdin_line (\<lambda>line. case int_of_str line of
       Inl _ \<Rightarrow> ret (Inl m) | Inr v \<Rightarrow> menu_action m v)) E w1 = Some (r, w')"
    using assms p by (simp add: menu_body_def menu_prompt_def andthen_app)
  show thesis
  proof (cases "typed E (trace w1)")
    case (Inl e)
    with run p have "w' = emit Readline w1" and "choice m E w = None" and "r = Inl e"
      by (auto simp: bnd_app read_stdin_line_def query_app choice_def)
    with other [OF p] show thesis by simp
  next
    case (Inr line)
    show thesis
    proof (cases "int_of_str line")
      case (Inl e)
      with run p Inr other show thesis
        by (auto simp: bnd_app read_stdin_line_def query_app choice_def ret_app)
    next
      case (Inr v)
      with run p \<open>typed E (trace w1) = Inr line\<close> chosen show thesis
        by (auto simp: bnd_app read_stdin_line_def query_app choice_def)
    qed
  qed
qed

text \<open>
  C2: No disk is reformatted unless the user types 1 or 5 in the main menu: every other round of
  either menu, whether it succeeds or raises, runs no program that writes a partition table, a
  filesystem, a swap area, or RAID or LVM metadata.
\<close>

theorem reformat_only_by_choice:
  assumes "menu_round m E w = Some (r, w')"
    and "\<not> (m = MainMenu \<and> choice m E w \<in> {Some 1, Some 5})"
  shows "since (\<lambda>e. \<not> reformats e) w E w'"
proof -
  let ?P = "since (\<lambda>e. \<not> reformats e) w"
  have body: "?P E w2" if run: "menu_body m E w = Some (q, w2)" for q w2
  proof -
    have prompt: "keeps ?P (menu_prompt m)"
      unfolding menu_prompt_def by (cases m) (simp_all add: harmless_run.keeps_menu_prompts)
    from run show ?thesis
    proof (cases rule: menu_body_cases)
      case (other w1)
      then have "?P E w1" using keepsD [OF prompt, OF since_refl] by blast
      with other(2) show ?thesis by (simp add: since_emit)
    next
      case (chosen w1 v)
      then have "?P E w1" using keepsD [OF prompt, OF since_refl] by blast
      then have w1: "?P E (emit Readline w1)" by (simp add: since_emit)
      have "keeps ?P (menu_action m v)"
        using assms(2) chosen(2)
        by (cases m) (auto simp: menu_action_def
            intro: harmless_run.keeps_recovery_action harmless_run.keeps_main_action_other)
      from keepsD [OF this, OF w1, OF chosen(3)] show ?thesis .
    qed
  qed
  obtain q w2 where q: "menu_body m E w = Some (q, w2)"
    using assms(1) by (auto simp: menu_round_def catch_app split: option.splits)
  show ?thesis
  proof (cases q)
    case (Inl e)
    with q assms(1) have "menu_handler m e E w2 = Some (r, w')"
      by (simp add: menu_round_def catch_app)
    from keepsD [OF harmless_run.keeps_menu_handler, OF body [OF q], OF this] show ?thesis .
  next
    case (Inr z)
    with q assms(1) body [OF q] show ?thesis by (simp add: menu_round_def catch_app)
  qed
qed

theorem reformat_only_by_choice_witness:
  "\<exists>r w'. menu_round MainMenu (plain_env\<lparr>typed := \<lambda>_. Inr ''3''\<rparr>) start_world = Some (r, w')
     \<and> since (\<lambda>e. \<not> reformats e) start_world (plain_env\<lparr>typed := \<lambda>_. Inr ''3''\<rparr>) w'"
proof -
  have "choice MainMenu (plain_env\<lparr>typed := \<lambda>_. Inr ''3''\<rparr>) start_world = Some 3" by code_simp
  moreover have "map_option fst (menu_round MainMenu (plain_env\<lparr>typed := \<lambda>_. Inr ''3''\<rparr>) start_world)
      = Some (Inr (Inl RecoveryMenu))"
    by code_simp
  ultimately show ?thesis using reformat_only_by_choice [of MainMenu "plain_env\<lparr>typed := \<lambda>_. Inr ''3''\<rparr>" start_world] by force
qed

section \<open>Errors\<close>

lemma handler_returns:
  assumes "\<nexists>n. e = SystemExit n"
  shows "\<exists>w'. menu_handler m e E w = Some (Inr (Inl m), w') \<and> since is_output w E w'"
proof -
  obtain w1 where r: "report ''Unknown error: '' e E w = Some (Inr (), w1)" and "since is_output w E w1"
    by (auto simp: report_def bnd_app ask_app print_def act_app is_output_def since_emit)
  moreover have "is_exception e" if "e \<noteq> KeyboardInterrupt"
    using assms that by (cases e) (simp_all add: is_exception_def)
  ultimately show ?thesis
    by (auto simp: menu_handler_def ret_app andthen_app)
qed

text \<open>
  C31: The only exception that ends the menu loop is \<open>SystemExit\<close>; every other error of a choice
  shows the same menu again.
\<close>

theorem menu_survives_errors:
  assumes "menu_body m E w = Some (Inl e, w')"
  shows "case e of SystemExit n \<Rightarrow> menu_round m E w = Some (Inl e, w')
    | _ \<Rightarrow> \<exists>w''. menu_round m E w = Some (Inr (Inl m), w'') \<and> since is_output w' E w''"
proof (cases "\<exists>n. e = SystemExit n")
  case True
  with assms show ?thesis
    by (auto simp: menu_round_def catch_app menu_handler_def is_exception_def raise_app)
next
  case False
  obtain w'' where h: "menu_handler m e E w' = Some (Inr (Inl m), w'')" and o: "since is_output w' E w''"
    using handler_returns False by blast
  have "menu_round m E w = Some (Inr (Inl m), w'')"
    using assms h by (simp add: menu_round_def catch_app)
  with o False show ?thesis by (auto split: exn.split)
qed

theorem menu_survives_errors_witness:
  "\<exists>w'. menu_round MainMenu (plain_env\<lparr>typed := \<lambda>_. Inr ''2''\<rparr>) start_world
     = Some (Inr (Inl MainMenu), w')"
proof -
  have "map_option fst (menu_body MainMenu (plain_env\<lparr>typed := \<lambda>_. Inr ''2''\<rparr>) start_world)
      = Some (Inl InstallerException)"
    by code_simp
  then obtain w' where "menu_body MainMenu (plain_env\<lparr>typed := \<lambda>_. Inr ''2''\<rparr>) start_world
      = Some (Inl InstallerException, w')" by auto
  from menu_survives_errors [OF this] show ?thesis by auto
qed

section \<open>End of input\<close>

text \<open>
  C32: When the standard input is at its end, \<open>readline\<close> returns the empty string, which is not a
  number, and the menu is shown again for ever.
\<close>

theorem menu_spins_at_eof:
  assumes "\<And>h. typed E h = Inr []"
  shows "iterate menu_round m E w = None"
proof (rule ccontr)
  assume "iterate menu_round m E w \<noteq> None"
  then obtain r w' where run: "iterate menu_round m E w = Some (r, w')" by auto
  have no_number: "int_of_str [] = Inl ValueError" by code_simp
  have step: "q = Inr (Inl c)" if round: "menu_round c E v = Some (q, v')" for c v q v'
  proof -
    obtain p u where p: "menu_body c E v = Some (p, u)"
      using round unfolding menu_round_def catch_def by (cases "menu_body c E v") auto
    then have "p = Inr (Inl c)"
    proof (cases rule: menu_body_cases)
      case (other w1)
      with p assms no_number show ?thesis
        by (auto simp: menu_body_def menu_prompt_def [symmetric] andthen_app bnd_app
            read_stdin_line_def query_app ret_app)
    next
      case (chosen w1 n)
      with assms no_number show ?thesis by (simp add: choice_def)
    qed
    with p round show ?thesis by (simp add: menu_round_def catch_app)
  qed
  show False
    by (rule iterate_invariant [where I = "\<lambda>_ _. True" and Q = "\<lambda>_ _. False", OF run])
      (auto dest: step)
qed

theorem menu_spins_at_eof_witness:
  "iterate menu_round MainMenu (plain_env\<lparr>typed := \<lambda>_. Inr []\<rparr>) start_world = None"
  by (rule menu_spins_at_eof) simp

section \<open>Starting the program\<close>

text \<open>
  C33: When the pipes carry \<open>bytes\<close>, as they do in Python 3 unless text is asked for, the program
  stops before any menu or script: once \<open>lvs\<close> can be run, \<open>Installer()\<close> raises \<open>TypeError\<close>, which
  nothing catches.
\<close>

theorem bytes_pipes_stop_the_start:
  assumes "\<not> text_pipes E" and "starts_all E"
    and "\<And>h. read_file E h ''/proc/diskstats'' = Inr c" and "diskstat_devs (file_lines c) = Inr ds"
  shows "map_option fst (default_installer user E w) = Some (Inl TypeError)"
proof -
  have "completes E (restart_arrays True)"
    using assms(2) unfolding restart_arrays_def by (intro completes_rules)
  then obtain w1 where w1: "restart_arrays True E w = Some (Inr (), w1)"
    by (fastforce dest: completesD)
  have "map_option fst (list_devs E w1) = Some (Inl TypeError)"
    using assms by (simp add: list_devs_def open_read_def query_app bnd_app lift_res_app popen_app
        pipe_split_app starts_all_def split: sum.split)
  with w1 show ?thesis
    by (auto simp: default_installer_def installer_init_def read_devs_def andthen_app)
qed

theorem bytes_pipes_stop_the_start_witness:
  "map_option fst (default_installer skip
      (plain_env\<lparr>text_pipes := False, read_file := \<lambda>_ _. Inr (''8 0 sda 0'' @ [NL])\<rparr>) start_world)
    = Some (Inl TypeError)"
proof (rule bytes_pipes_stop_the_start)
  show "diskstat_devs (file_lines (''8 0 sda 0'' @ [NL])) = Inr [''/dev/sda'']" by code_simp
qed (simp_all add: plain_env_def starts_all_def)

section \<open>A failed recovery\<close>

interpretation fields_kept: harmless_contract "\<lambda>_. True" "only (\<lambda>_. True) w0" for w0
  by unfold_locales simp

lemma call_succeeds:
  assumes "\<And>h argv. \<exists>out err. run E h argv = Inr (0, out, err)"
  shows "call argv E w = Some (Inr 0, emit (Call argv) w)"
  using assms [of "trace w" argv] by (auto simp: call_def query_app)

lemma callu_succeeds:
  assumes "\<And>h argv. \<exists>out err. run E h argv = Inr (0, out, err)"
  shows "callu argv E w = Some (Inr (), emit (Call argv) w)"
  by (simp add: callu_def bnd_app call_succeeds [OF assms] skip_app)

lemma only_trans: "only (\<lambda>_. True) w1 E w2 \<Longrightarrow> mounts w1 = mounts w \<Longrightarrow> installed w1 = b \<Longrightarrow>
    mounts w2 = mounts w \<and> installed w2 = b"
  by (simp add: only_def)

text \<open>
  When the fstab of the partition to recover is rejected, the recovery raises the error but leaves
  the system marked as installed, with the mount table of before: the mark is set first.
\<close>

theorem failed_recovery_stays_installed:
  assumes "\<And>h argv. \<exists>out err. run E h argv = Inr (0, out, err)" and "partn \<noteq> []"
    and "\<And>h. read_file E h ''/tmp/fstab'' = c" and "fstab_outcome E c = Inl e"
  shows "\<exists>w'. setup_from_existing_install (Some partn) E w = Some (Inl e, w')
    \<and> installed w' \<and> mounts w' = mounts w"
proof -
  note ok = call_succeeds [OF assms(1)] callu_succeeds [OF assms(1)]
  have "starts_all E" using assms(1) unfolding starts_all_def by (metis Inl_Inr_False)
  then have "completes E unmount_all"
    unfolding unmount_all_def unmount_def by (intro completes_rules completes_for_each)
  then obtain w1 where w1: "unmount_all E w = Some (Inr (), w1)" by (fastforce dest: completesD)
  from keepsD [OF fields_kept.keeps_unmount_all, OF only_refl, OF w1]
  have m1: "mounts w1 = mounts w" by (simp add: only_def)
  have re: "\<exists>w'. reread_fstab ''/tmp/fstab'' E v = Some (Inl e, w')
      \<and> installed w' = installed v \<and> mounts w' = mounts v" for v
    using reread_fstab_run [of "''/tmp/fstab''" E v] assms(3,4) by (auto dest: quiet_fields)
  let ?v = "emit (Call [''umount'', mpref @ ''/''])
    (emit (Call [''cp'', mpref @ ''/etc/mdadm.conf'', ''/tmp/mdadm.conf''])
    (emit (Call [''cp'', mpref @ ''/etc/fstab'', ''/tmp/fstab''])
    (emit (Call [''mount'', partn, mpref @ ''/''])
    (emit (Call [''mkdir'', ''-p'', mpref @ ''/'']) (w1\<lparr>installed := True\<rparr>)))))"
  obtain w2 where w2: "reread_fstab ''/tmp/fstab'' E ?v = Some (Inl e, w2)"
    "installed w2" "mounts w2 = mounts w1"
    using re [of ?v] by auto
  show ?thesis
    unfolding setup_from_existing_install_def
    using assms(2) m1 w2
    by (auto simp: andthen_app w1 bnd_app ret_app mount_def ok unmount_def opt_args_def whenc_def
        skip_app modify_st_app)
qed

theorem failed_recovery_stays_installed_witness:
  "\<exists>w'. setup_from_existing_install (Some ''/dev/sda1'')
      (plain_env\<lparr>read_file := \<lambda>_ _. Inr (''/dev/sda1 /home ext4 defaults 0 1'' @ [NL])\<rparr>) start_world
      = Some (Inl InstallerException, w') \<and> installed w' \<and> mounts w' = []"
proof -
  let ?c = "''/dev/sda1 /home ext4 defaults 0 1'' @ [NL]"
  let ?E = "plain_env\<lparr>read_file := \<lambda>_ _. Inr ?c\<rparr>"
  have "fstab_outcome ?E (Inr ?c) = Inl InstallerException" by code_simp
  from failed_recovery_stays_installed [OF _ _ _ this, of "''/dev/sda1''" start_world]
  show ?thesis by (simp add: plain_env_def start_world_def)
qed

end
