(* ===== verification/AutoFacts.thy ===== *)
theory AutoFacts
  imports AutoInstall
begin

text \<open>
  Properties of the automatic installation: what consent it needs, the sizes of the volumes and
  the wait for the RAID.
\<close>

section \<open>Consent\<close>

text \<open>The answers to the two questions; the history is that of the messages before each.\<close>

definition first_answer :: "env \<Rightarrow> world \<Rightarrow> exn + string" where
  "first_answer E w = typed E (trace w @ [Out (autoinstall_help @ [NL])])"

definition second_answer :: "env \<Rightarrow> world \<Rightarrow> exn + string" where
  "second_answer E w = typed E (trace w @ [Out (autoinstall_help @ [NL]),
     Input ''Do you want to continue? (y/n) > '' (hook w), Out (autoinstall_disk_use_help @ [NL])])"

definition said :: "string list \<Rightarrow> exn + string \<Rightarrow> bool" where
  "said answers r = (case r of Inl _ \<Rightarrow> False | Inr s \<Rightarrow> strip s \<in> set answers)"

definition consents :: "env \<Rightarrow> world \<Rightarrow> bool" where
  "consents E w \<longleftrightarrow> said [''y''] (first_answer E w) \<and> said [''y'', ''n''] (second_answer E w)"

text \<open>Talking to the user\<close>

definition is_dialog :: "event \<Rightarrow> bool" where
  "is_dialog e \<longleftrightarrow> (case e of Out _ \<Rightarrow> True | Input _ _ \<Rightarrow> True | _ \<Rightarrow> False)"

lemma is_dialog_simps [simp]: "is_dialog (Out s)" "is_dialog (Input p v)"
  by (simp_all add: is_dialog_def)

text \<open>
  C10: Unless the user answers the first question with \<open>y\<close> and the second with \<open>y\<close> or \<open>n\<close>, the
  automatic installation only talks to the user: it runs no program and opens no file.
\<close>

theorem autoinstall_needs_consent:
  assumes "def_user_installer E w = Some (r, w')" and "\<not> consents E w"
  shows "only is_dialog w E w'"
proof -
  let ?w1 = "emit (Out (autoinstall_help @ [NL])) w"
  let ?w2 = "emit (Input ''Do you want to continue? (y/n) > '' (hook w)) ?w1"
  let ?w3 = "emit (Out (autoinstall_disk_use_help @ [NL])) ?w2"
  let ?w4 = "emit (Input ''Press appropiate key (y/n) > '' (hook w)) ?w3"
  have dialog: "only is_dialog w E ?w2" "only is_dialog w E ?w4"
    "only is_dialog w E (emit (Out s) ?w4)" for s
    by (simp_all add: only_def since_emit)
  note answers = first_answer_def [symmetric] second_answer_def [symmetric]
  note run_simps = def_user_installer_def ask_consent_def bnd_app andthen_app print_def act_app
    read_input_def ret_app skip_app Let_def
  show ?thesis
  proof (cases "first_answer E w")
    case (Inl e)
    with assms(1) dialog(1) show ?thesis by (auto simp: run_simps answers)
  next
    case first: (Inr s1)
    show ?thesis
    proof (cases "strip s1 = ''y''")
      case False
      with first assms(1) dialog(1) show ?thesis by (auto simp: run_simps answers)
    next
      case yes: True
      show ?thesis
      proof (cases "second_answer E w")
        case (Inl e)
        with first yes assms(1) dialog(2) show ?thesis by (auto simp: run_simps answers)
      next
        case (Inr s2)
        with first yes assms(2) have "strip s2 \<noteq> ''y''" and "strip s2 \<noteq> ''n''"
          by (auto simp: consents_def said_def)
        with Inr first yes assms(1) dialog(3) show ?thesis by (auto simp: run_simps answers)
      qed
    qed
  qed
qed

theorem autoinstall_needs_consent_witness:
  "\<exists>w'. def_user_installer (plain_env\<lparr>typed := \<lambda>_. Inr ''yes''\<rparr>) start_world = Some (Inr (), w')
     \<and> only is_dialog start_world (plain_env\<lparr>typed := \<lambda>_. Inr ''yes''\<rparr>) w'"
proof -
  let ?E = "plain_env\<lparr>typed := \<lambda>_. Inr ''yes''\<rparr>"
  have "map_option fst (def_user_installer ?E start_world) = Some (Inr ())" by code_simp
  then obtain w' where w': "def_user_installer ?E start_world = Some (Inr (), w')" by auto
  have "\<not> consents ?E start_world" by code_simp
  from autoinstall_needs_consent [OF w' this] w' show ?thesis by blast
qed

section \<open>Sizes\<close>

text \<open>
  C9: The volumes fit: when the sizes are settled for a physical volume of \<open>q\<close> megabytes and a
  machine with memory, the root volume has at least 10000 MB (exactly 10000 when the user asked
  for 10 GB), and root and swap together need no more than \<open>q\<close>; the swap volume is twice the
  memory or is left out.
\<close>

theorem volumes_fit:
  assumes "usable_size (Fin q) = Inr sz" and "plan_volumes ten_gb sz memcount = Inr (Some (rt, mem))"
    and "0 \<le> memcount"
  shows "10000 \<le> rt \<and> (ten_gb \<longrightarrow> rt = 10000) \<and> (mem = memcount \<or> mem = 0)
    \<and> of_int rt + 2 * mem \<le> q"
proof -
  let ?sw = "trunc (memcount * 2)"
  have sz: "sz = trunc (q - of_int (trunc (q / 10)))"
    using assms(1) by (simp add: usable_size_def float_mult_def float_add_def)
  have plan: "(if sz > ?sw then sz - ?sw \<ge> 10000 \<and> mem = memcount \<and> rt = (if ten_gb then 10000 else sz - ?sw)
      else sz \<ge> 10000 \<and> mem = 0 \<and> rt = (if ten_gb then 10000 else sz))"
    using assms(2) by (auto simp: plan_volumes_def Let_def split: if_splits)
  have sw: "0 \<le> ?sw" "2 * memcount < of_int ?sw + 1"
    using assms(3) trunc_bounds [of "memcount * 2"] trunc_mono [of 0 "memcount * 2"]
    by (simp_all add: trunc_def)
  have "10000 \<le> sz" using plan sw(1) by (auto split: if_splits)
  have pos: "0 \<le> q - of_int (trunc (q / 10))"
  proof (rule ccontr)
    assume "\<not> ?thesis"
    then have "sz \<le> 0"
      unfolding sz using trunc_mono [of "q - of_int (trunc (q / 10))" 0] trunc_of_int [of 0] by simp
    with \<open>10000 \<le> sz\<close> show False by simp
  qed
  have le: "of_int sz \<le> q - of_int (trunc (q / 10))"
    unfolding sz using trunc_bounds [OF pos] by simp
  have "0 \<le> q"
  proof (rule ccontr)
    assume "\<not> 0 \<le> q"
    then have "trunc (q / 10) = \<lceil>q / 10\<rceil>" and "q / 10 \<le> of_int \<lceil>q / 10\<rceil>" by (simp_all add: trunc_def)
    with pos \<open>\<not> 0 \<le> q\<close> show False by simp
  qed
  then have nonneg: "0 \<le> trunc (q / 10)" using trunc_mono [of 0 "q / 10"] by (simp add: trunc_def)
  then have "(0::rat) \<le> of_int (trunc (q / 10))" by simp
  moreover have "(10000::rat) \<le> of_int sz" using \<open>10000 \<le> sz\<close> by simp
  ultimately have "10000 \<le> q" using le by linarith
  then have "1 \<le> trunc (q / 10)" using trunc_mono [of 1 "q / 10"] by (simp add: trunc_def)
  then have "(1::rat) \<le> of_int (trunc (q / 10))" by simp
  with le have room: "of_int sz + 1 \<le> q" by linarith
  show ?thesis
  proof (cases "sz > ?sw")
    case True
    then have "rt \<le> sz - ?sw" using plan by (auto split: if_splits)
    then have "(of_int rt :: rat) \<le> of_int sz - of_int ?sw" by (metis of_int_diff of_int_le_iff)
    with True plan sw(2) room show ?thesis by (auto split: if_splits)
  next
    case False
    then have "rt \<le> sz" using plan by (auto split: if_splits)
    then have "(of_int rt :: rat) \<le> of_int sz" by simp
    with False plan room show ?thesis by (auto split: if_splits)
  qed
qed

theorem volumes_fit_witness:
  "usable_size (Fin 20000) = Inr 18000 \<and> plan_volumes False 18000 2000 = Inr (Some (14000, 2000))
   \<and> (of_int 14000 + 2 * 2000 :: rat) \<le> 20000"
proof -
  have 1: "usable_size (Fin 20000) = Inr 18000"
    by (simp add: usable_size_def float_mult_def float_add_def trunc_def)
  have 2: "plan_volumes False 18000 2000 = Inr (Some (14000, 2000))"
    by (simp add: plan_volumes_def trunc_def)
  from volumes_fit [OF 1 2] 1 2 show ?thesis by simp
qed

text \<open>
  When \<open>free\<close> fails, the installation stops with \<open>UnboundLocalError\<close> after the volume group has
  been made: without a memory size the size of the root volume is never computed.
\<close>

theorem no_memory_size_stops:
  assumes "text_pipes E" and "run E (trace w) [''free''] = Inr (rc, out, err)" and "rc \<noteq> 0"
    and "\<And>h. run E h [''pvdisplay'', ''-C'', ''--noheadings'', ''--nosuffix'', ''--units'', ''M'', lvmdev]
      = Inr (0, pv, err')" and "pv \<noteq> []" and "pv_size pv = Inr sz"
  shows "map_option fst (size_and_make_volumes ten_gb vg lvmdev E w) = Some (Inl UnboundLocalError)"
  using assms
  by (simp add: size_and_make_volumes_def read_memory_def bnd_app andthen_app popen_app lift_res_app
      print_def act_app skip_app ret_app call_cmd_app data_true_def plan_volumes_def)

theorem no_memory_size_stops_witness:
  "map_option fst (size_and_make_volumes True ''vg01'' ''/dev/md0''
      (plain_env\<lparr>run := \<lambda>h argv. if argv = [''free''] then Inr (1, [], [])
         else Inr (0, ''  /dev/md0 vg01 lvm2 a-- 60 60'', [])\<rparr>) start_world) = Some (Inl UnboundLocalError)"
proof (rule no_memory_size_stops [where rc = 1])
  show "pv_size ''  /dev/md0 vg01 lvm2 a-- 60 60'' = Inr 54" by code_simp
qed (simp_all add: plain_env_def)

section \<open>Waiting for the RAID\<close>

text \<open>
  The wait for the RAID ends, without an error, only right after \<open>grep\<close> has found no resync.
\<close>

theorem wait_resync_ends_clean:
  assumes "wait_resync E w = Some (Inr (), w')"
  shows "\<exists>v rc err. w' = emit (Popen resync_cmd) v \<and> run E (trace v) resync_cmd = Inr (rc, [], err)"
proof -
  let ?Q = "\<lambda>r w'. (r :: exn + unit) = Inr () \<longrightarrow>
    (\<exists>v rc err. w' = emit (Popen resync_cmd) v \<and> run E (trace v) resync_cmd = Inr (rc, [], err))"
  have "?Q (Inr ()) w'"
    by (rule iterate_invariant [where I = "\<lambda>_ _. True" and Q = ?Q, OF assms [unfolded wait_resync_def]])
      (auto simp: resync_round_def bnd_app andthen_app call_cmd_app ret_app print_def act_app
        write_out_def skip_app data_true_def pipe_data_def split: sum.splits if_splits)
  then show ?thesis by simp
qed

theorem wait_resync_ends_clean_witness:
  "\<exists>v rc err. run (plain_env\<lparr>run := \<lambda>h argv. Inr (0, if length h < 3 then ''resync'' else [], [])\<rparr>)
     (trace (v :: world)) resync_cmd = Inr (rc, [], err)"
proof -
  let ?E = "plain_env\<lparr>run := \<lambda>h argv. Inr (0, if length h < 3 then ''resync'' else [], [])\<rparr>"
  have "map_option fst (wait_resync ?E start_world) = Some (Inr ())" by code_simp
  then obtain w' where "wait_resync ?E start_world = Some (Inr (), w')" by auto
  from wait_resync_ends_clean [OF this] show ?thesis by blast
qed

end
