(* ===== verification/PyRound.thy ===== *)
theory PyRound
  imports PyNum "HOL-Library.Log_Nat"
begin

text \<open>
  The arithmetic of doubles that \<open>int((a / b) % n)\<close> rests on: the true division of two integers gives
  the double nearest to the exact quotient, and the remainder is that of C, made to have the sign
  of \<open>n\<close>. A double is its exact rational value; the integers divided come from 64-bit words, so
  that no result leaves the range of the exponents.
\<close>

section \<open>The nearest double\<close>

text \<open>The exponent: the power of two below the absolute value\<close>

definition expo :: "rat \<Rightarrow> int" where
  "expo x = (let (p, q) = quotient_of \<bar>x\<bar>;
       e = bitlen p - bitlen q
     in if 2 powi e \<le> \<bar>x\<bar> then e else e - 1)"

text \<open>The unit in the last of the 53 binary places\<close>

definition ulp :: "rat \<Rightarrow> rat" where
  "ulp x = 2 powi (expo x - 52)"

definition nearest_even :: "rat \<Rightarrow> int" where
  "nearest_even y = (let n = \<lfloor>y\<rfloor>; r = y - of_int n in
     if r < 1 / 2 \<or> r = 1 / 2 \<and> even n then n else n + 1)"

definition nearest_double :: "rat \<Rightarrow> rat" where
  "nearest_double x = (if x = 0 then 0 else of_int (nearest_even (x / ulp x)) * ulp x)"

text \<open>\<open>a / b\<close> of integers, and \<open>x % n\<close> of a double and an integer\<close>

definition true_div :: "int \<Rightarrow> int \<Rightarrow> rat" where
  "true_div a b = nearest_double (of_int a / of_int b)"

definition fmod :: "rat \<Rightarrow> rat \<Rightarrow> rat" where
  "fmod x y = x - y * of_int (trunc (x / y))"

definition float_mod :: "rat \<Rightarrow> rat \<Rightarrow> rat" where
  "float_mod x y = (let r = fmod x y in
     if r \<noteq> 0 \<and> (r < 0) \<noteq> (y < 0) then nearest_double (r + y) else r)"

section \<open>Rounding\<close>

lemma expo_bounds:
  assumes "x \<noteq> 0"
  shows "2 powi expo x \<le> \<bar>x\<bar>" and "\<bar>x\<bar> < 2 powi (expo x + 1)"
proof -
  obtain p q where pq: "quotient_of \<bar>x\<bar> = (p, q)" by (cases "quotient_of \<bar>x\<bar>")
  have q: "0 < q" using pq by (rule quotient_of_denom_pos)
  have x: "\<bar>x\<bar> = of_int p / of_int q" using pq by (rule quotient_of_div)
  have p: "0 < p" using assms x q
    by (metis of_int_0_less_iff zero_less_abs_iff zero_less_divide_iff not_less_iff_gr_or_eq)
  define a b where "a = floorlog 2 (nat p)" and "b = floorlog 2 (nat q)"
  have log: "2 ^ (floorlog 2 (nat n) - 1) \<le> n \<and> n < 2 ^ floorlog 2 (nat n)"
    "0 < floorlog 2 (nat n)" if "0 < n" for n :: int
  proof -
    have "2 ^ (floorlog 2 (nat n) - 1) \<le> nat n \<and> nat n < 2 ^ floorlog 2 (nat n)"
      using floorlog_bounds [of "nat n" 2] that by simp
    then have "int (2 ^ (floorlog 2 (nat n) - 1)) \<le> n \<and> n < int (2 ^ floorlog 2 (nat n))"
      using that by linarith
    then show "2 ^ (floorlog 2 (nat n) - 1) \<le> n \<and> n < 2 ^ floorlog 2 (nat n)" by simp
    show "0 < floorlog 2 (nat n)" using that floorlog_eq_zero_iff [of 2 "nat n"] by simp
  qed
  have "(of_int (2 ^ (a - 1)) :: rat) \<le> of_int p" "(of_int p :: rat) < of_int (2 ^ a)"
    "(of_int (2 ^ (b - 1)) :: rat) \<le> of_int q" "(of_int q :: rat) < of_int (2 ^ b)"
    unfolding of_int_le_iff of_int_less_iff a_def b_def using log [OF p] log [OF q] by simp_all
  then have lo: "(2 :: rat) powi (int a - 1) \<le> of_int p" "of_int p < (2 :: rat) powi int a"
    "(2 :: rat) powi (int b - 1) \<le> of_int q" "of_int q < (2 :: rat) powi int b"
    using log(2) [OF p] log(2) [OF q] by (simp_all add: a_def b_def power_int_def nat_diff_distrib')
  have e: "expo x = (if 2 powi (int a - int b) \<le> \<bar>x\<bar> then int a - int b else int a - int b - 1)"
    by (simp add: expo_def pq a_def b_def bitlen_def Let_def)
  have "(2 :: rat) powi (int a - int b - 1) = 2 powi (int a - 1) / 2 powi int b"
    by (simp add: power_int_diff)
  also have "\<dots> \<le> of_int p / of_int q"
    using lo p q by (intro frac_le) simp_all
  finally have low: "2 powi (int a - int b - 1) \<le> \<bar>x\<bar>" unfolding x .
  have "of_int p / of_int q < (2 :: rat) powi int a / 2 powi (int b - 1)"
    using lo p q by (intro frac_less) simp_all
  also have "\<dots> = 2 powi (int a - int b + 1)"
    by (simp add: power_int_diff power_int_add)
  finally have high: "\<bar>x\<bar> < 2 powi (int a - int b + 1)" unfolding x .
  show "2 powi expo x \<le> \<bar>x\<bar>" using low by (simp add: e)
  show "\<bar>x\<bar> < 2 powi (expo x + 1)" using high by (auto simp: e)
qed

lemma nearest_even_of_int [simp]: "nearest_even (of_int n) = n"
  by (simp add: nearest_even_def)

lemma nearest_even_error: "\<bar>of_int (nearest_even y) - y\<bar> \<le> 1 / 2"
  using floor_correct [of y] by (auto simp: nearest_even_def Let_def abs_le_iff)

lemma nearest_even_ge: "of_int n \<le> y \<Longrightarrow> n \<le> nearest_even y"
  unfolding nearest_even_def Let_def by (auto simp: le_floor_iff intro: add_increasing2)

lemma ulp_pos [simp]: "0 < ulp x"
  by (simp add: ulp_def)

lemma ulp_neq [simp]: "ulp x \<noteq> 0"
  using ulp_pos [of x] by linarith

lemma ulp_le:
  assumes "x \<noteq> 0"
  shows "ulp x \<le> \<bar>x\<bar> / 2 ^ 52"
proof -
  have "ulp x = 2 powi expo x / 2 ^ 52" by (simp add: ulp_def power_int_diff)
  then show ?thesis using expo_bounds(1) [OF assms] by (simp add: divide_right_mono)
qed

text \<open>The relative error is at most \<open>2 ^ -53\<close>; a number of 53 binary places is kept.\<close>

lemma nearest_double_0 [simp]: "nearest_double 0 = 0"
  by (simp add: nearest_double_def)

lemma nearest_double_error: "\<bar>nearest_double x - x\<bar> \<le> \<bar>x\<bar> / 2 ^ 53"
proof (cases "x = 0")
  case False
  have "nearest_double x - x = (of_int (nearest_even (x / ulp x)) - x / ulp x) * ulp x"
    using False by (simp add: nearest_double_def field_simps)
  then have "\<bar>nearest_double x - x\<bar> = \<bar>of_int (nearest_even (x / ulp x)) - x / ulp x\<bar> * ulp x"
    by (simp add: abs_mult less_imp_le)
  also have "\<dots> \<le> 1 / 2 * (\<bar>x\<bar> / 2 ^ 52)"
    using nearest_even_error ulp_le [OF False] by (intro mult_mono) (auto simp: less_imp_le)
  finally show ?thesis by simp
qed simp

lemma nearest_double_exact: "x = of_int n * ulp x \<Longrightarrow> nearest_double x = x"
  by (metis nearest_double_def nearest_even_of_int nonzero_mult_div_cancel_right ulp_neq)

lemma expo_less: "x \<noteq> 0 \<Longrightarrow> \<bar>x\<bar> < 2 powi k \<Longrightarrow> expo x < k"
  using expo_bounds(1) [of x] power_int_le_imp_less_exp [of "2 :: rat" "expo x" k]
  by (metis le_less_trans numeral_One one_less_numeral_iff power_int_increasing not_less semiring_norm(76) one_le_numeral)

lemma nearest_double_dyadic:
  assumes "\<bar>n\<bar> < 2 ^ 53"
  shows "nearest_double (of_int n / 2 ^ j) = of_int n / 2 ^ j"
proof (cases "n = 0")
  case False
  let ?x = "of_int n / 2 ^ j :: rat"
  have "of_int \<bar>n\<bar> < (of_int (2 ^ 53) :: rat)" using assms unfolding of_int_less_iff .
  then have "\<bar>?x\<bar> < 2 ^ 53 / 2 ^ j" by (simp add: divide_strict_right_mono)
  also have "\<dots> = (2 :: rat) powi (53 - int j)" by (simp add: power_int_diff)
  finally have "expo ?x < 53 - int j" using False by (intro expo_less) simp_all
  then obtain m where m: "52 - int j - expo ?x = int m"
    using zero_le_imp_eq_int [of "52 - int j - expo ?x"] by auto
  have "?x = of_int (n * 2 ^ m) * ulp ?x"
  proof -
    have "(2 :: rat) ^ m * ulp ?x = 2 powi (int m + (expo ?x - 52))"
      by (simp add: ulp_def power_int_add)
    also have "int m + (expo ?x - 52) = - int j" using m by linarith
    also have "(2 :: rat) powi (- int j) = 1 / 2 ^ j" by (simp add: power_int_minus_divide)
    finally show ?thesis by (simp add: field_simps)
  qed
  then show ?thesis by (rule nearest_double_exact)
qed simp

lemma nearest_double_of_int: "\<bar>n\<bar> < 2 ^ 53 \<Longrightarrow> nearest_double (of_int n) = of_int n"
  using nearest_double_dyadic [of n 0] by simp

lemma nearest_double_nonneg: "0 \<le> x \<Longrightarrow> 0 \<le> nearest_double x"
proof -
  assume x: "0 \<le> x"
  have "x - nearest_double x \<le> x / 2 ^ 53" using nearest_double_error [of x] x by (simp only: abs_le_iff abs_of_nonneg) linarith
  moreover have "x / 2 ^ 53 \<le> x" using x by (simp add: divide_le_eq)
  ultimately show "0 \<le> nearest_double x" by linarith
qed

text \<open>Rounding does not go below an integer.\<close>

lemma nearest_double_ge:
  assumes "of_int n \<le> x" and "0 < x" and "x < 2 ^ 53"
  shows "of_int n \<le> nearest_double x"
proof -
  have "expo x < 53" using assms(2,3) by (intro expo_less) simp_all
  then obtain m where m: "52 - expo x = int m" using zero_le_imp_eq_int [of "52 - expo x"] by auto
  then have "expo x - 52 = - int m" by simp
  then have u: "ulp x * 2 ^ m = 1" by (simp add: ulp_def power_int_minus)
  have "of_int (n * 2 ^ m) \<le> x / ulp x"
    using assms(1) u ulp_pos [of x] by (simp add: pos_le_divide_eq mult.assoc mult.commute [of "2 ^ m"])
  then have "n * 2 ^ m \<le> nearest_even (x / ulp x)" by (rule nearest_even_ge)
  then have "of_int (n * 2 ^ m) * ulp x \<le> of_int (nearest_even (x / ulp x)) * ulp x"
    unfolding mult_le_cancel_right_pos [OF ulp_pos] of_int_le_iff .
  then show ?thesis using assms(2) u by (simp add: nearest_double_def mult_ac)
qed

section \<open>The integer part of a quotient\<close>

lemma floor_quotient: "\<lfloor>(of_int a / of_int b :: rat)\<rfloor> = a div b"
  by (rule floor_divide_of_int_eq)

lemma true_div_floor:
  assumes "0 \<le> a" and "a < 2 ^ 53" and "0 < b"
  shows "\<lfloor>true_div a b\<rfloor> = a div b"
proof (cases "a = 0")
  case False
  let ?x = "of_int a / of_int b :: rat"
  have x: "0 < ?x" using assms False by simp
  have "(of_int a :: rat) < of_int (2 ^ 53)" using assms(2) unfolding of_int_less_iff .
  then have a: "(of_int a :: rat) < 2 ^ 53" by simp
  have "?x \<le> of_int a" using assms by (simp add: divide_le_eq mult_le_cancel_left1)
  with a have "?x < 2 ^ 53" by linarith
  moreover have "of_int (a div b) \<le> ?x" by (metis floor_quotient of_int_floor_le)
  ultimately have "of_int (a div b) \<le> true_div a b"
    unfolding true_div_def using x by (intro nearest_double_ge)
  moreover have "true_div a b < of_int (a div b) + 1"
  proof -
    have "a + 1 \<le> (a div b + 1) * b"
      using div_mult_mod_eq [of a b] pos_mod_bound [OF assms(3), of a] unfolding distrib_right by linarith
    then have "(of_int (a + 1) :: rat) \<le> of_int ((a div b + 1) * b)" unfolding of_int_le_iff .
    then have "(of_int a + 1) / of_int b \<le> (of_int (a div b) + 1 :: rat)"
      using assms(3) by (simp add: divide_le_eq)
    moreover have "true_div a b \<le> ?x + ?x / 2 ^ 53"
      using nearest_double_error [of ?x] unfolding true_div_def abs_le_iff abs_of_pos [OF x] by linarith
    moreover have "?x / 2 ^ 53 < 1 / of_int b"
      using a assms(3) by (simp add: divide_less_eq)
    ultimately show ?thesis by (simp add: add_divide_distrib)
  qed
  ultimately show ?thesis by (intro floor_unique) auto
qed (simp add: true_div_def)

section \<open>The remainder\<close>

lemma floor_multiple:
  assumes "(0 :: rat) < y"
  shows "0 \<le> x - y * of_int \<lfloor>x / y\<rfloor>" and "x - y * of_int \<lfloor>x / y\<rfloor> < y"
proof -
  have "of_int \<lfloor>x / y\<rfloor> \<le> x / y" and "x / y < of_int \<lfloor>x / y\<rfloor> + 1" by linarith+
  then have "of_int \<lfloor>x / y\<rfloor> * y \<le> x" and "x < (of_int \<lfloor>x / y\<rfloor> + 1) * y"
    using assms by (simp_all only: pos_le_divide_eq pos_divide_less_eq)
  then show "0 \<le> x - y * of_int \<lfloor>x / y\<rfloor>" and "x - y * of_int \<lfloor>x / y\<rfloor> < y"
    by (simp_all add: algebra_simps)
qed

lemma fmod_range:
  assumes "0 \<le> x" and "0 < y"
  shows "0 \<le> fmod x y" and "fmod x y < y"
proof -
  have "trunc (x / y) = \<lfloor>x / y\<rfloor>" using assms by (simp add: trunc_nonneg)
  then show "0 \<le> fmod x y" and "fmod x y < y"
    using floor_multiple [OF assms(2), of x] by (simp_all add: fmod_def)
qed

lemma float_mod_nonneg: "0 \<le> x \<Longrightarrow> 0 < y \<Longrightarrow> float_mod x y = fmod x y"
  using fmod_range [of x y] by (simp add: float_mod_def Let_def)

lemma floor_mod:
  assumes "0 < n"
  shows "\<lfloor>x - of_int n * of_int \<lfloor>x / of_int n\<rfloor>\<rfloor> = \<lfloor>x :: rat\<rfloor> mod n"
proof -
  have n: "(0 :: rat) < of_int n" using assms by simp
  have "\<lfloor>x\<rfloor> div n * n \<le> \<lfloor>x\<rfloor>" "\<lfloor>x\<rfloor> + 1 \<le> (\<lfloor>x\<rfloor> div n + 1) * n"
    using div_mult_mod_eq [of "\<lfloor>x\<rfloor>" n] pos_mod_bound [OF assms, of "\<lfloor>x\<rfloor>"] pos_mod_sign [OF assms, of "\<lfloor>x\<rfloor>"]
    unfolding distrib_right by linarith+
  then have "of_int (\<lfloor>x\<rfloor> div n * n) \<le> x" "x < of_int ((\<lfloor>x\<rfloor> div n + 1) * n)"
    by (simp_all only: le_floor_iff) linarith+
  then have "\<lfloor>x / of_int n\<rfloor> = \<lfloor>x\<rfloor> div n"
    using n by (intro floor_unique) (simp_all add: pos_le_divide_eq pos_divide_less_eq)
  then have "x - of_int n * of_int \<lfloor>x / of_int n\<rfloor> = x - of_int (n * (\<lfloor>x\<rfloor> div n))" by simp
  then show ?thesis by (simp only: floor_diff_of_int minus_mult_div_eq_mod)
qed

lemma trunc_fmod:
  assumes "0 \<le> x" and "0 < n"
  shows "trunc (fmod x (of_int n)) = \<lfloor>x\<rfloor> mod n"
proof -
  have "(0 :: rat) < of_int n" using assms(2) by simp
  with assms fmod_range(1) [of x "of_int n"] floor_mod [of n x] show ?thesis
    by (simp add: fmod_def trunc_nonneg)
qed

section \<open>The index of a position in a ring\<close>

text \<open>\<open>int((pos / sub) % num)\<close>\<close>

definition ring_index :: "int \<Rightarrow> int \<Rightarrow> int \<Rightarrow> int" where
  "ring_index pos sub num = trunc (float_mod (true_div pos sub) (nearest_double (of_int num)))"

text \<open>Below \<open>2 ^ 53\<close> this is what exact arithmetic gives.\<close>

lemma ring_index_nonneg:
  assumes "0 \<le> pos" and "pos < 2 ^ 53" and "0 < sub" and "0 < num" and "num < 2 ^ 53"
  shows "ring_index pos sub num = pos div sub mod num"
proof -
  have "0 \<le> true_div pos sub" using assms by (simp add: true_div_def nearest_double_nonneg)
  with assms show ?thesis
    by (simp add: ring_index_def nearest_double_of_int float_mod_nonneg trunc_fmod true_div_floor)
qed

text \<open>
  Of a negative number of few binary places the remainder is computed exactly: it is a multiple of
  the same power of two.
\<close>

lemma float_mod_exact:
  assumes "x < 0" and "0 < y"
    and exact: "nearest_double (x - y * of_int \<lfloor>x / y\<rfloor>) = x - y * of_int \<lfloor>x / y\<rfloor>"
  shows "float_mod x y = x - y * of_int \<lfloor>x / y\<rfloor>"
proof -
  have "x / y < 0" using assms(1,2) by (simp add: divide_less_0_iff)
  then have r: "fmod x y = x - y * of_int \<lceil>x / y\<rceil>" by (simp add: fmod_def trunc_def)
  have "x / y \<le> of_int \<lceil>x / y\<rceil>" by linarith
  then have le: "fmod x y \<le> 0" using assms(2) unfolding r pos_divide_le_eq [OF assms(2)] by (simp add: mult.commute)
  show ?thesis
  proof (cases "fmod x y = 0")
    case True
    then have "x / y = of_int \<lceil>x / y\<rceil>" using assms(2) unfolding r by (simp add: field_simps)
    then have "\<lfloor>x / y\<rfloor> = \<lceil>x / y\<rceil>" by (metis floor_of_int)
    moreover have "float_mod x y = fmod x y" using True by (simp add: float_mod_def)
    ultimately show ?thesis by (simp only: r)
  next
    case False
    then have "x / y \<noteq> of_int \<lceil>x / y\<rceil>" using assms(2) unfolding r by (auto simp: field_simps)
    then have "\<lceil>x / y\<rceil> = \<lfloor>x / y\<rfloor> + 1" by linarith
    then have sum: "fmod x y + y = x - y * of_int \<lfloor>x / y\<rfloor>" unfolding r by (simp add: algebra_simps)
    have "float_mod x y = nearest_double (fmod x y + y)"
      using False le assms(2) by (simp add: float_mod_def Let_def)
    then show ?thesis unfolding sum exact .
  qed
qed

lemma ring_index_negative:
  assumes "- (2 ^ 53) < pos" and "pos < 0" and "sub = 2 ^ j" and "0 < num" and "num * sub < 2 ^ 53"
  shows "ring_index pos sub num = pos div sub mod num"
proof -
  let ?x = "of_int pos / 2 ^ j :: rat" and ?n = "of_int num :: rat"
  let ?k = "pos - num * \<lfloor>?x / ?n\<rfloor> * 2 ^ j"
  have n: "0 < ?n" using assms(4) by simp
  have "num * 1 \<le> num * sub" unfolding assms(3) using assms(4) by (intro mult_left_mono) simp_all
  with assms(5) have "num < 2 ^ 53" by linarith
  with assms(4) have nd: "nearest_double ?n = ?n" by (intro nearest_double_of_int) simp
  have x: "true_div pos sub = ?x"
    unfolding true_div_def assms(3) using assms(1,2) nearest_double_dyadic [of pos j] by simp
  have neg: "?x < 0" using assms(2) by (simp add: divide_less_0_iff)
  have k: "?x - ?n * of_int \<lfloor>?x / ?n\<rfloor> = of_int ?k / 2 ^ j" by (simp add: field_simps)
  have pow: "(0 :: rat) < 2 ^ j" by simp
  have "(0 :: rat) \<le> of_int ?k" and "of_int ?k < (of_int (num * 2 ^ j) :: rat)"
    using floor_multiple [OF n, of ?x] unfolding k pos_le_divide_eq [OF pow] pos_divide_less_eq [OF pow]
    by simp_all
  then have "0 \<le> ?k" and "?k < num * 2 ^ j" unfolding of_int_less_iff of_int_0_le_iff .
  then have "nearest_double (of_int ?k / 2 ^ j) = of_int ?k / 2 ^ j"
    using assms(3,5) by (intro nearest_double_dyadic) simp
  then have m: "float_mod ?x ?n = ?x - ?n * of_int \<lfloor>?x / ?n\<rfloor>"
    unfolding k [symmetric] by (rule float_mod_exact [OF neg n])
  have "\<lfloor>?x\<rfloor> = pos div sub" using floor_quotient [of pos sub] by (simp add: assms(3))
  then show ?thesis
    using floor_multiple(1) [OF n, of ?x] floor_mod [OF assms(4), of ?x]
    unfolding ring_index_def x nd m by (simp add: trunc_nonneg)
qed

text \<open>For a position that is not negative, the index is in the ring, however large it is.\<close>

lemma ring_index_range:
  assumes "0 \<le> pos" and "0 < sub" and "0 < num" and "num < 2 ^ 53"
  shows "0 \<le> ring_index pos sub num" and "ring_index pos sub num < num"
proof -
  have "0 \<le> true_div pos sub" using assms by (simp add: true_div_def nearest_double_nonneg)
  with assms have "ring_index pos sub num = \<lfloor>true_div pos sub\<rfloor> mod num"
    by (simp add: ring_index_def nearest_double_of_int float_mod_nonneg trunc_fmod)
  with assms(3) show "0 \<le> ring_index pos sub num" and "ring_index pos sub num < num" by simp_all
qed

text \<open>For a negative one it can be outside: the remainder rounds up to the number of subbuffers.\<close>

lemma ring_index_outside: "ring_index (- 1) (2 ^ 60) 4 = 4"
  by code_simp

lemma ring_index_examples:
  "ring_index 1000 64 4 = 3" "ring_index (- 1) 64 4 = 3" "ring_index (2 ^ 53 - 1) 3 (2 ^ 52) = (2 ^ 53 - 1) div 3"
  by code_simp+

end
