(* ===== verification/Gdb.thy ===== *)
theory Gdb
  imports PyRound "HOL-Library.Word"
begin

unbundle bit_operations_syntax

text \<open>
  The debugger as \<open>ltt.py\<close> and \<open>gdbinit.py\<close> use it. The \<open>gdb\<close> module is not part of the
  repository: \<open>parse_and_eval\<close>, \<open>execute\<close> and \<open>string_to_argv\<close> are functions of the environment.
  The state holds the files the commands write, the commands executed and the lines printed.
\<close>

section \<open>Values, commands, environment, state\<close>

type_synonym bytes = "8 word list"
type_synonym files = "string \<Rightarrow> bytes option"

text \<open>A \<open>gdb.Value\<close> of a scalar: what \<open>int(v)\<close> and \<open>str(v)\<close> give.\<close>

record gval =
  gnum :: int
  gtext :: string

text \<open>The commands passed to \<open>gdb.execute\<close>, with the values formatted into them.\<close>

datatype gcmd =
    AppendMemory string int int      \<comment> \<open>\<open>append memory <file> <start> <end>\<close>\<close>
  | AppendValue string string int    \<comment> \<open>\<open>append value <file> ((<type>) <value>)\<close>\<close>
  | AddSymbolFile string string "(string \<times> string) list" \<comment> \<open>\<open>add-symbol-file <file> <text> -s <section> <address> ...\<close>\<close>
  | ShowEndian                       \<comment> \<open>\<open>show endian\<close>\<close>
  | Kvtop int                        \<comment> \<open>\<open>kvtop 0x<address>\<close>\<close>

text \<open>
  \<open>eval\<close>: the value of an expression after some commands. \<open>address_as_ulong\<close>: the
  address of a value, cast to \<open>unsigned long\<close>. \<open>string_of\<close>: \<open>v.string()\<close>. \<open>execute\<close>: what a command prints and makes of the files.
  \<open>open_err\<close>: whether opening a file in some mode fails. \<open>system\<close>: what a shell command makes of
  the files.
\<close>

record gdb =
  eval :: "gcmd list \<Rightarrow> string \<Rightarrow> exn + gval"
  address_as_ulong :: "gval \<Rightarrow> gval"
  string_of :: "gval \<Rightarrow> exn + string"
  execute :: "gcmd list \<Rightarrow> gcmd \<Rightarrow> files \<Rightarrow> exn + (string \<times> files)"
  argv_of :: "string \<Rightarrow> string list"
  open_err :: "string \<Rightarrow> string \<Rightarrow> bool"
  system :: "string \<Rightarrow> files \<Rightarrow> files"

record gst =
  files :: files
  commands :: "gcmd list"
  printed :: "string list"
  littleendian :: "bool option"

type_synonym 'a dbg = "(gdb, gst, 'a) comp"

section \<open>Operations\<close>

definition parse_and_eval :: "string \<Rightarrow> gval dbg" where
  "parse_and_eval x = (\<lambda>G s. Some (eval G (commands s) x, s))"

definition gdb_execute :: "gcmd \<Rightarrow> string dbg" where
  "gdb_execute c = (\<lambda>G s. Some (case execute G (commands s) c (files s) of
       Inl e \<Rightarrow> (Inl e, s\<lparr>commands := commands s @ [c]\<rparr>)
     | Inr (out, fs) \<Rightarrow> (Inr out, s\<lparr>commands := commands s @ [c], files := fs\<rparr>)))"

definition gdb_print :: "string \<Rightarrow> unit dbg" where
  "gdb_print l = modify_st (\<lambda>s. s\<lparr>printed := printed s @ [l]\<rparr>)"

definition os_system :: "string \<Rightarrow> unit dbg" where
  "os_system c = (\<lambda>G s. Some (Inr (), s\<lparr>files := system G c (files s)\<rparr>))"

text \<open>\<open>int(v)\<close> and \<open>int(gdb.parse_and_eval(x))\<close>\<close>

definition eval_int :: "string \<Rightarrow> int dbg" where
  "eval_int x = bnd (parse_and_eval x) (\<lambda>v. ret (gnum v))"

text \<open>
  \<open>int(a / b)\<close> where \<open>a\<close> is a size in bytes or an offset in a subbuffer: far below \<open>2 ^ 53\<close>, where the
  double has the integer part of the exact quotient (\<open>true_div_floor\<close>).
\<close>

definition idiv :: "int \<Rightarrow> int \<Rightarrow> int dbg" where
  "idiv a b = (if b = 0 then raise ZeroDivisionError else ret (a div b))"

definition imod :: "int \<Rightarrow> int \<Rightarrow> int dbg" where
  "imod a b = (if b = 0 then raise ZeroDivisionError else ret (a mod b))"

section \<open>Files\<close>

text \<open>Opening a file in a mode: \<open>a\<close> and \<open>w\<close> create it, \<open>r\<close> needs it.\<close>

definition content :: "files \<Rightarrow> string \<Rightarrow> bytes" where
  "content fs f = (case fs f of None \<Rightarrow> [] | Some bs \<Rightarrow> bs)"

definition open_mode :: "string \<Rightarrow> string \<Rightarrow> unit dbg" where
  "open_mode f m = (\<lambda>G s.
     if open_err G f m \<or> (m ! 0 = CHR ''r'' \<and> files s f = None) then Some (Inl OSError, s)
     else Some (Inr (), s\<lparr>files := (files s)(f \<mapsto>
       (if m ! 0 = CHR ''w'' then [] else content (files s) f))\<rparr>))"

definition file_content :: "string \<Rightarrow> bytes dbg" where
  "file_content f = get_st (\<lambda>s. content (files s) f)"

definition write_file :: "string \<Rightarrow> bytes \<Rightarrow> unit dbg" where
  "write_file f bs = modify_st (\<lambda>s. s\<lparr>files := (files s)(f \<mapsto> bs)\<rparr>)"

definition unlink :: "string \<Rightarrow> unit dbg" where
  "unlink f = modify_st (\<lambda>s. s\<lparr>files := (files s)(f := None)\<rparr>)"

text \<open>\<open>f.seek(p); f.write(v)\<close> and \<open>f.seek(p); f.read(n)\<close>; a write past the end fills with zeros.\<close>

definition patch :: "nat \<Rightarrow> bytes \<Rightarrow> bytes \<Rightarrow> bytes" where
  "patch p v bs = take p (bs @ replicate (p - length bs) 0) @ v @ drop (p + length v) bs"

definition read_at :: "nat \<Rightarrow> nat \<Rightarrow> bytes \<Rightarrow> bytes" where
  "read_at p n bs = take n (drop p bs)"

definition ascii :: "string \<Rightarrow> bytes" where
  "ascii s = map (\<lambda>c. word_of_nat (of_char c)) s"

section \<open>One step\<close>

lemma parse_and_eval_app [comp_simps]: "parse_and_eval x G s = Some (eval G (commands s) x, s)"
  by (simp add: parse_and_eval_def)

lemma eval_int_app [comp_simps]:
  "eval_int x G s = Some (map_sum id gnum (eval G (commands s) x), s)"
  by (simp add: eval_int_def bnd_app parse_and_eval_app ret_app split: sum.split)

lemma gdb_print_app [comp_simps]:
  "gdb_print l G s = Some (Inr (), s\<lparr>printed := printed s @ [l]\<rparr>)"
  by (simp add: gdb_print_def modify_st_app)

lemma file_content_app [comp_simps]: "file_content f G s = Some (Inr (content (files s) f), s)"
  by (simp add: file_content_def get_st_app)

lemma write_file_app [comp_simps]:
  "write_file f bs G s = Some (Inr (), s\<lparr>files := (files s)(f \<mapsto> bs)\<rparr>)"
  by (simp add: write_file_def modify_st_app)

lemma content_upd [simp]: "content (fs(f \<mapsto> bs)) g = (if g = f then bs else content fs g)"
  by (simp add: content_def)

lemma content_del [simp]: "content (fs(f := None)) g = (if g = f then [] else content fs g)"
  by (simp add: content_def)

section \<open>A file of bytes as an interface\<close>

text \<open>
  What the dump relies on: a file that is read in whole, extended at its end and patched in
  place; a patch inside the file keeps its length and every byte outside the patch.
\<close>

locale byte_file =
  fixes read :: "'f \<Rightarrow> bytes" and extend :: "bytes \<Rightarrow> 'f \<Rightarrow> 'f"
    and overwrite :: "nat \<Rightarrow> bytes \<Rightarrow> 'f \<Rightarrow> 'f"
  assumes read_extend: "read (extend v f) = read f @ v"
    and read_overwrite: "p + length v \<le> length (read f) \<Longrightarrow>
      read (overwrite p v f) = take p (read f) @ v @ drop (p + length v) (read f)"
begin

lemma length_extend: "length (read (extend v f)) = length (read f) + length v"
  by (simp add: read_extend)

lemma length_overwrite:
  "p + length v \<le> length (read f) \<Longrightarrow> length (read (overwrite p v f)) = length (read f)"
  by (simp add: read_overwrite)

lemma overwrite_inside:
  "p + length v \<le> length (read f) \<Longrightarrow> read_at p (length v) (read (overwrite p v f)) = v"
  by (simp add: read_overwrite read_at_def)

lemma overwrite_before:
  "p + length v \<le> length (read f) \<Longrightarrow> q + n \<le> p \<Longrightarrow>
     read_at q n (read (overwrite p v f)) = read_at q n (read f)"
  by (simp add: read_overwrite read_at_def drop_take)

lemma overwrite_after:
  "p + length v \<le> length (read f) \<Longrightarrow> p + length v \<le> q \<Longrightarrow>
     read_at q n (read (overwrite p v f)) = read_at q n (read f)"
  by (simp add: read_overwrite read_at_def)

end

interpretation bytes_file: byte_file "\<lambda>bs. bs" "\<lambda>v bs. bs @ v" patch
  by unfold_locales (simp_all add: patch_def)

interpretation stored_file: byte_file "\<lambda>fs. content fs f" "\<lambda>v fs. fs(f \<mapsto> content fs f @ v)"
    "\<lambda>p v fs. fs(f \<mapsto> patch p v (content fs f))" for f
  by unfold_locales (simp_all add: patch_def)

section \<open>What the operations keep, and that they end\<close>

lemma returns_gdb [returns_rules]:
  "returns (parse_and_eval x)" "returns (gdb_execute c)" "returns (gdb_print l)" "returns (os_system cmd)"
  "returns (eval_int x)" "returns (idiv a b)" "returns (imod a b)" "returns (open_mode f m)"
  "returns (file_content f)" "returns (write_file f bs)" "returns (unlink f)"
  by (simp_all add: returns_def comp_simps gdb_execute_def os_system_def idiv_def imod_def open_mode_def
      unlink_def modify_st_app split: sum.splits prod.splits)

end
