(* ===== verification/LttUtil.thy ===== *)
theory LttUtil
  imports Gdb
begin

text \<open>
  The functions of \<open>ltt.py\<close> outside the command: C expressions and pointers, files, the list of
  CPUs, and the modules of the kernel.
\<close>

section \<open>Expressions\<close>

definition calc_offset :: "string \<Rightarrow> string \<Rightarrow> gval dbg" where
  "calc_offset struct member =
     parse_and_eval (''((int)&(('' @ struct @ '' *)0).'' @ member @ '')'')"

definition fetch_container :: "string \<Rightarrow> string \<Rightarrow> string \<Rightarrow> string dbg" where
  "fetch_container p struct lmember =
     bnd (calc_offset struct lmember) (\<lambda>off.
     bnd (parse_and_eval (''(void *) (((unsigned long) '' @ p @ '') - '' @ gtext off @ '')'')) (\<lambda>s.
     ret (''(('' @ struct @ '' *) '' @ gtext s @ '')'')))"

definition get_ptr :: "string \<Rightarrow> string \<Rightarrow> string dbg" where
  "get_ptr p struct =
     bnd (parse_and_eval (''(void *) '' @ p)) (\<lambda>s. ret (''(('' @ struct @ '' *) '' @ gtext s @ '')''))"

definition get_str :: "string \<Rightarrow> string dbg" where
  "get_str p =
     bnd (parse_and_eval (''(char *) '' @ p)) (\<lambda>s. lift_res (index (split_on (CHR 0x22) (gtext s)) 1))"

definition get_percpu_ptr :: "string \<Rightarrow> int \<Rightarrow> string \<Rightarrow> string dbg" where
  "get_percpu_ptr p cpu typename =
     bnd (catch (bnd (parse_and_eval (''__per_cpu_offset['' @ str_of_int cpu @ '']'')) (\<lambda>v. ret (gtext v)))
       (\<lambda>_. ret ''0'')) (\<lambda>off.
     bnd (parse_and_eval (''(void *) '' @ p @ '' + '' @ off)) (\<lambda>v.
     ret (''(('' @ typename @ '' *) '' @ gtext v @ '')'')))"

definition get_member_ptr :: "string \<Rightarrow> string \<Rightarrow> string \<Rightarrow> string dbg" where
  "get_member_ptr p membtype member =
     bnd (parse_and_eval (p @ ''->'' @ member)) (\<lambda>v.
     ret (''(('' @ membtype @ '' *) '' @ gtext v @ '')''))"

definition get_member_unsigned_long :: "string \<Rightarrow> string \<Rightarrow> int dbg" where
  "get_member_unsigned_long p member = eval_int (''(unsigned long) ('' @ p @ ''->'' @ member @ '')'')"

section \<open>Numbers and files\<close>

definition align :: "int \<Rightarrow> int \<Rightarrow> int" where
  "align v alignment = (v + (alignment - 1)) AND NOT (alignment - 1)"

definition get_file_size :: "string \<Rightarrow> nat dbg" where
  "get_file_size fname = andthen (open_mode fname ''a'') (bnd (file_content fname) (\<lambda>bs. ret (length bs)))"

definition value_to_binary :: "string \<Rightarrow> string \<Rightarrow> int \<Rightarrow> bytes dbg" where
  "value_to_binary tmpdir typestr v =
     (let fn = tmpdir @ ''/dummy'' in
      bnd (gdb_execute (AppendValue fn typestr v)) (\<lambda>_.
      andthen (open_mode fn ''rb'')
     (bnd (file_content fn) (\<lambda>bs.
      andthen (unlink fn) (ret bs)))))"

definition is_little_endian :: "bool dbg" where
  "is_little_endian =
     bnd (get_st littleendian) (\<lambda>known. case known of
       Some b \<Rightarrow> ret b
     | None \<Rightarrow>
         bnd (gdb_execute ShowEndian) (\<lambda>out.
         let b = contains out ''little'' in
         andthen (modify_st (\<lambda>s. s\<lparr>littleendian := Some b\<rparr>)) (ret b)))"

text \<open>The loop of \<open>read_value\<close>: most significant byte first.\<close>

definition value_of :: "bytes \<Rightarrow> int" where
  "value_of bs = foldl (\<lambda>v c. push_bit 8 v OR uint c) 0 bs"

text \<open>\<open>read_value(f, typestr)\<close> of a file whose bytes from the current position are \<open>bs\<close>\<close>

definition read_value :: "bytes \<Rightarrow> string \<Rightarrow> int dbg" where
  "read_value bs typestr =
     bnd (eval_int (''sizeof('' @ typestr @ '')'')) (\<lambda>tsize.
     let vs = take (nat tsize) bs in
     bnd is_little_endian (\<lambda>little.
     ret (value_of (if little then rev vs else vs))))"

section \<open>CPUs\<close>

text \<open>The bits of one word of the mask: \<open>n\<close> bits left, the number of the next CPU.\<close>

fun mask_cpus :: "nat \<Rightarrow> int \<Rightarrow> int \<Rightarrow> int list" where
  "mask_cpus 0 m cpu = []"
| "mask_cpus (Suc n) m cpu =
     (if m AND 1 \<noteq> 0 then cpu # mask_cpus n (drop_bit 1 m) (cpu + 1)
      else mask_cpus n (drop_bit 1 m) (cpu + 1))"

text \<open>One round of the loop over the words; the loop's variables are the next CPU and the CPUs found.\<close>

definition scan_word :: "int \<Rightarrow> nat \<Rightarrow> int \<times> int list \<Rightarrow> (int \<times> int list) dbg" where
  "scan_word ulongsize i = (\<lambda>(cpu, cpus).
     bnd (eval_int (''__cpu_online_mask.bits['' @ str_of_int (int i) @ '']'')) (\<lambda>m.
     ret (cpu + max 0 (ulongsize * 8), cpus @ mask_cpus (nat (ulongsize * 8)) m cpu)))"

definition scan_cpumask :: "int list dbg" where
  "scan_cpumask =
     bnd (eval_int ''sizeof(unsigned long)'') (\<lambda>ulongsize.
     bnd (eval_int ''sizeof(__cpu_online_mask)'') (\<lambda>n.
     bnd (idiv n ulongsize) (\<lambda>nr_cpumask.
     bnd (fold_comp (scan_word ulongsize) [0..<nat nr_cpumask] (0, [])) (\<lambda>(_, cpus).
     ret cpus))))"

definition get_cpu_list :: "int list dbg" where
  "get_cpu_list = catch scan_cpumask (\<lambda>_.
     andthen (gdb_print ''***Unable to get number of CPUs, defaulting to 1'') (ret [0]))"

section \<open>Modules\<close>

text \<open>
  One round of the walk over the list of modules: the module at \<open>current\<close>, or the next one.
\<close>

definition module_round :: "string \<Rightarrow> gval \<Rightarrow> gval \<Rightarrow> gval \<Rightarrow> (gval + string option) dbg" where
  "module_round modname off head current =
     (if gnum current = gnum head then ret (Inr None)
      else
        bnd (parse_and_eval (''((struct module *) (((char *) '' @ gtext current @ '') - ''
          @ gtext off @ ''))'')) (\<lambda>v.
        let modp = ''((struct module *) '' @ gtext v @ '')'' in
        bnd (get_str (modp @ ''->name'')) (\<lambda>cname.
        if cname = modname then ret (Inr (Some modp))
        else bnd (parse_and_eval (''((struct list_head *) '' @ gtext current @ '')->next'')) (\<lambda>next.
          ret (Inl next)))))"

definition find_module :: "string \<Rightarrow> string option dbg" where
  "find_module modname =
     bnd (parse_and_eval ''((int)&((struct module *)0).list)'') (\<lambda>off.
     bnd (parse_and_eval ''modules'') (\<lambda>m.
     bnd (ask (\<lambda>G. address_as_ulong G m)) (\<lambda>head.
     bnd (parse_and_eval (''((struct list_head *) '' @ gtext head @ '')->next'')) (\<lambda>current.
     iterate (module_round modname off head) current))))"

definition sections_needed :: "string list" where
  "sections_needed = [''.data'', ''.text'', ''.bss'']"

text \<open>
  The section loop: the text address, 0 as long as there is none, and the other sections.
\<close>

definition section_step :: "string \<Rightarrow> nat \<Rightarrow> gval option \<times> (string \<times> string) list
    \<Rightarrow> (gval option \<times> (string \<times> string) list) dbg" where
  "section_step modp i = (\<lambda>(textaddr, sect_strs).
     let attr = modp @ ''->sect_attrs->attrs['' @ str_of_nat i @ '']'' in
     bnd (get_str (attr @ ''.name'')) (\<lambda>name.
     if name \<in> set sections_needed then
       bnd (parse_and_eval (attr @ ''.address'')) (\<lambda>addr.
       if name = ''.text'' then ret (Some addr, sect_strs)
       else ret (textaddr, sect_strs @ [(name, gtext addr)]))
     else ret (textaddr, sect_strs)))"

definition find_and_load_module :: "string \<Rightarrow> string \<Rightarrow> unit dbg" where
  "find_and_load_module symfile modname =
     bnd (find_module modname) (\<lambda>found. case found of
       None \<Rightarrow> raise (GdbError (''Unable to find lttng_tracer module, are you ''
         @ ''sure lttng is loaded in this kernel dump?''))
     | Some modp \<Rightarrow>
         bnd (eval_int (modp @ ''->sect_attrs->nsections'')) (\<lambda>sect_count.
         bnd (fold_comp (section_step modp) [0..<nat sect_count] (None, [])) (\<lambda>(textaddr, sect_strs).
         case textaddr of
           None \<Rightarrow> raise (GdbError (''No .text address for module '' @ modname))
         | Some a \<Rightarrow>
             if gnum a = 0 then raise (GdbError (''No .text address for module '' @ modname))
             else bnd (gdb_execute (AddSymbolFile symfile (gtext a) sect_strs)) (\<lambda>_. skip))))"

section \<open>They end\<close>

lemma returns_expressions [returns_rules]:
  "returns (calc_offset a b)" "returns (fetch_container p a b)" "returns (get_ptr p a)" "returns (get_str p)"
  "returns (get_percpu_ptr p c a)" "returns (get_member_ptr p a b)" "returns (get_member_unsigned_long p a)"
  unfolding calc_offset_def fetch_container_def get_ptr_def get_str_def get_percpu_ptr_def
    get_member_ptr_def get_member_unsigned_long_def
  by (intro returns_rules)+

lemma returns_get_file_size [returns_rules]: "returns (get_file_size f)"
  unfolding get_file_size_def by (intro returns_rules)

lemma returns_value_to_binary [returns_rules]: "returns (value_to_binary d t v)"
  unfolding value_to_binary_def Let_def by (intro returns_rules)

lemma returns_is_little_endian [returns_rules]: "returns is_little_endian"
  unfolding is_little_endian_def Let_def by (intro returns_rules)

lemma returns_read_value [returns_rules]: "returns (read_value bs t)"
  unfolding read_value_def Let_def by (intro returns_rules)

lemma returns_scan_cpumask [returns_rules]: "returns scan_cpumask"
  unfolding scan_cpumask_def scan_word_def by (intro returns_rules)

lemma returns_get_cpu_list [returns_rules]: "returns get_cpu_list"
  unfolding get_cpu_list_def by (intro returns_rules)

end
