(* ===== verification/LttDump.thy ===== *)
theory LttDump
  imports LttUtil
begin

text \<open>
  The command \<open>dumpltt\<close>: finding the channel, copying the pages of a subbuffer into the file of its
  CPU, fixing the packet header there, walking the ring buffer, and the metadata.
\<close>

section \<open>The attributes of the command\<close>

text \<open>\<open>invoke\<close> sets them before it handles a buffer; the handlers only read them.\<close>

record dump =
  dumpdir :: string
  num_subbuf :: int
  subbuf_size :: int
  page_size :: int
  num_pages_per_subbuf :: int
  idmask :: int
  last_tsc :: int

definition channel_file :: "dump \<Rightarrow> int \<Rightarrow> string" where
  "channel_file d cpu = dumpdir d @ ''/channel0_'' @ str_of_int cpu"

section \<open>Finding the channel\<close>

definition overwrite_channel :: "gval \<Rightarrow> string \<Rightarrow> string option dbg" where
  "overwrite_channel per_cpu_channel chan =
     bnd (eval_int (chan @ ''->enabled'')) (\<lambda>enabled.
     if enabled = 0 then ret None
     else bnd (parse_and_eval (chan @ ''->channel_type'')) (\<lambda>chantype.
       if gnum chantype \<noteq> gnum per_cpu_channel then ret None
       else bnd (parse_and_eval (''&('' @ chan @ ''->chan->backend)'')) (\<lambda>b.
         let backend = ''((struct channel_backend *) '' @ gtext b @ '')'' in
         bnd (get_str (backend @ ''->name'')) (\<lambda>tpname.
         ret (if tpname = ''relay-overwrite-mmap'' then Some backend else None)))))"

definition next_entry :: "gval \<Rightarrow> gval dbg" where
  "next_entry p = parse_and_eval (''((struct list_head *) '' @ gtext p @ '')->next'')"

definition channel_round :: "gval \<Rightarrow> gval \<Rightarrow> gval \<Rightarrow> (gval + string option) dbg" where
  "channel_round per_cpu_channel head p =
     (if gnum p = gnum head then ret (Inr None)
      else
        bnd (fetch_container (gtext p) ''struct lttng_channel'' ''list'') (\<lambda>chan.
        bnd (overwrite_channel per_cpu_channel chan) (\<lambda>found. case found of
          Some backend \<Rightarrow> ret (Inr (Some backend))
        | None \<Rightarrow> bnd (next_entry p) (\<lambda>next. ret (Inl next)))))"

definition find_channel :: "gval \<Rightarrow> gval \<Rightarrow> string option dbg" where
  "find_channel per_cpu_channel head =
     bnd (next_entry head) (iterate (channel_round per_cpu_channel head))"

definition session_round :: "gval \<Rightarrow> gval \<Rightarrow> gval \<Rightarrow> (gval + (string \<times> string) option) dbg" where
  "session_round per_cpu_channel head p =
     (if gnum p = gnum head then ret (Inr None)
      else
        bnd (fetch_container (gtext p) ''struct lttng_session'' ''list'') (\<lambda>session.
        bnd (eval_int (session @ ''->active'')) (\<lambda>active.
        bnd (if active = 0 then ret None
             else bnd (parse_and_eval (''&('' @ session @ ''->chan)'')) (find_channel per_cpu_channel)) (\<lambda>chan.
        case chan of
          Some backend \<Rightarrow> ret (Inr (Some (session, backend)))
        | None \<Rightarrow> bnd (next_entry p) (\<lambda>next. ret (Inl next))))))"

definition find_session_channel :: "gval \<Rightarrow> (string \<times> string) option dbg" where
  "find_session_channel per_cpu_channel =
     bnd (parse_and_eval ''&sessions'') (\<lambda>head.
     bnd (parse_and_eval ''sessions.next'') (iterate (session_round per_cpu_channel head)))"

section \<open>Pages and subbuffers\<close>

definition add_alignment :: "dump \<Rightarrow> int \<Rightarrow> int \<Rightarrow> unit dbg" where
  "add_alignment d cpu n =
     (let f = channel_file d cpu in
      andthen (open_mode f ''ab'')
     (if n < 0 then raise ValueError
      else bnd (file_content f) (\<lambda>bs. write_file f (bs @ replicate (nat n) 0))))"

definition dump_page :: "dump \<Rightarrow> int \<Rightarrow> string \<Rightarrow> int \<Rightarrow> int \<Rightarrow> unit dbg" where
  "dump_page d cpu page start n =
     (if n = 0 then skip
      else bnd (eval_int (page @ ''->virt'')) (\<lambda>virt.
        let addr = virt + start in
        bnd (gdb_execute (AppendMemory (channel_file d cpu) addr (addr + n))) (\<lambda>_. skip)))"

definition page_ptr :: "string \<Rightarrow> nat \<Rightarrow> string dbg" where
  "page_ptr rbbep i =
     get_ptr (''&('' @ rbbep @ ''->p['' @ str_of_nat i @ ''])'') ''struct lib_ring_buffer_backend_page''"

text \<open>The loop over the pages: the offset in the first page, the bytes to write, those written.\<close>

fun dump_pages :: "dump \<Rightarrow> int \<Rightarrow> string \<Rightarrow> nat list \<Rightarrow> int \<Rightarrow> int \<Rightarrow> int \<Rightarrow> int dbg" where
  "dump_pages d cpu rbbep [] start_offset n written = ret written"
| "dump_pages d cpu rbbep (i # is) start_offset n written =
     bnd (page_ptr rbbep i) (\<lambda>bepage.
       let room = page_size d - start_offset in
       if n > room then
         andthen (dump_page d cpu bepage start_offset room)
           (dump_pages d cpu rbbep is 0 (n - room) (written + room))
       else andthen (dump_page d cpu bepage start_offset n) (ret (written + n)))"

definition dump_subbuffer :: "dump \<Rightarrow> int \<Rightarrow> string \<Rightarrow> int \<Rightarrow> int \<Rightarrow> int dbg" where
  "dump_subbuffer d cpu rbbep start n =
     bnd (idiv start (page_size d)) (\<lambda>start_page.
     bnd (imod start (page_size d)) (\<lambda>start_offset.
     dump_pages d cpu rbbep [nat start_page ..< nat (num_pages_per_subbuf d)] start_offset n 0))"

definition recalc_end_tsc :: "dump \<Rightarrow> int \<Rightarrow> int dbg" where
  "recalc_end_tsc d begin_tsc =
     bnd (parse_and_eval ''sizeof(unsigned long)'') (\<lambda>ulongsize.
     if gnum ulongsize = 8 then ret (last_tsc d)
     else ret ((begin_tsc AND 0xffffffff00000000) OR last_tsc d))"

section \<open>handle_subbuffer\<close>

text \<open>\<open>f.seek(p); f.write(v)\<close> in the file of the CPU\<close>

definition patch_file :: "string \<Rightarrow> nat \<Rightarrow> bytes \<Rightarrow> unit dbg" where
  "patch_file f p v = bnd (file_content f) (\<lambda>bs. write_file f (patch p v bs))"

definition put_value :: "dump \<Rightarrow> string \<Rightarrow> nat \<Rightarrow> int \<Rightarrow> unit dbg" where
  "put_value d f p v = bnd (value_to_binary (dumpdir d) ''uint64_t'' v) (patch_file f p)"

text \<open>The header of the packet that starts at \<open>start\<close>\<close>

definition fix_header :: "dump \<Rightarrow> string \<Rightarrow> nat \<Rightarrow> int \<Rightarrow> int \<Rightarrow> unit dbg" where
  "fix_header d f start written padded =
     andthen (open_mode f ''r+b'')
    (bnd (file_content f) (\<lambda>bs.
     bnd (read_value (drop (start + 40) bs) ''uint64_t'') (\<lambda>end_tsc. block [
       whenc (end_tsc = 0) (put_value d f (start + 40) 0xffffffffffffffff),
       put_value d f (start + 48) (written * 8),
       put_value d f (start + 56) (padded * 8)])))"

text \<open>The bytes of data in the subbuffer.\<close>

definition data_size :: "dump \<Rightarrow> string \<Rightarrow> int \<Rightarrow> string \<Rightarrow> int dbg" where
  "data_size d buf cidx rbbep =
     bnd (get_member_unsigned_long buf (''commit_hot['' @ str_of_int cidx @ ''].seq.v'')) (\<lambda>n.
     if n AND (subbuf_size d - 1) = 0 then eval_int (rbbep @ ''->data_size'')
     else imod n (subbuf_size d))"

definition size_line :: "int \<Rightarrow> int \<Rightarrow> int \<Rightarrow> string" where
  "size_line padded pad n =
     ''    subbuf size = '' @ str_of_int padded @ '' (pad '' @ str_of_int pad @ '') '' @ str_of_int n"

definition handle_subbuffer :: "dump \<Rightarrow> int \<Rightarrow> string \<Rightarrow> string \<Rightarrow> int \<Rightarrow> int \<Rightarrow> int \<Rightarrow> unit dbg" where
  "handle_subbuffer d cpu buf rbbe cidx coffset len =
     (let f = channel_file d cpu in
      bnd (eval_int (rbbe @ ''['' @ str_of_int cidx @ ''].id'')) (\<lambda>sid.
      bnd (get_ptr (buf @ ''->backend.array['' @ str_of_int (sid AND idmask d) @ '']'')
        ''struct lib_ring_buffer_backend_pages'') (\<lambda>rbbep.
      bnd (data_size d buf cidx rbbep) (\<lambda>full.
      bnd (get_file_size f) (\<lambda>last_subbuf_start.
      let n = (if len > 0 \<and> len < full then len else full) in
      if n = 0 then skip
      else bnd (dump_subbuffer d cpu rbbep coffset n) (\<lambda>written_size.
        let padded_size = align written_size (page_size d) in block [
          add_alignment d cpu (padded_size - written_size),
          gdb_print (size_line padded_size (padded_size - written_size) n),
          fix_header d f last_subbuf_start written_size padded_size]))))))"

section \<open>handle_buffer\<close>

definition subbuffer_line :: "nat \<Rightarrow> string" where
  "subbuffer_line n = ''  subbuffer '' @ str_of_nat n"

text \<open>The loop's variables: the subbuffer, the offset in it, the number printed.\<close>

definition buffer_round :: "dump \<Rightarrow> int \<Rightarrow> string \<Rightarrow> string \<Rightarrow> int \<Rightarrow>
    int \<times> int \<times> nat \<Rightarrow> ((int \<times> int \<times> nat) + (int \<times> int \<times> nat)) dbg" where
  "buffer_round d cpu buf rbbe oidx = (\<lambda>(cidx, coffset, subbuf_num).
     if oidx = cidx then ret (Inr (cidx, coffset, subbuf_num))
     else
       andthen (gdb_print (subbuffer_line subbuf_num))
      (andthen (handle_subbuffer d cpu buf rbbe cidx coffset 0)
      (bnd (imod (cidx + 1) (num_subbuf d)) (\<lambda>cidx.
       ret (Inl (cidx, 0, subbuf_num + 1))))))"

text \<open>
  The index of the subbuffer at a position, \<open>int((pos / subbuf_size) % num_subbuf)\<close> in the arithmetic
  of doubles, and the offset in it, \<open>int(pos % subbuf_size)\<close> in that of integers.
\<close>

definition position :: "dump \<Rightarrow> int \<Rightarrow> (int \<times> int) dbg" where
  "position d pos =
     (if subbuf_size d = 0 \<or> num_subbuf d = 0 then raise ZeroDivisionError
      else ret (ring_index pos (subbuf_size d) (num_subbuf d), pos mod subbuf_size d))"

definition handle_buffer :: "dump \<Rightarrow> int \<Rightarrow> string \<Rightarrow> unit dbg" where
  "handle_buffer d cpu buf =
     andthen (gdb_print (''Handling cpu '' @ str_of_int cpu @ '' buffer '' @ buf))
    (bnd (eval_int (buf @ ''->offset.v'')) (\<lambda>offset.
     bnd (position d offset) (\<lambda>(oidx, ooffset).
     bnd (eval_int (buf @ ''->consumed.counter'')) (\<lambda>consumed.
     bnd (position d consumed) (\<lambda>(cidx, coffset).
     bnd (get_ptr (buf @ ''->backend.buf_wsb'') ''struct lib_ring_buffer_backend_subbuffer'') (\<lambda>rbbe.
     bnd (iterate (buffer_round d cpu buf rbbe oidx) (cidx, coffset, 1)) (\<lambda>(cidx, coffset, subbuf_num).
     andthen (gdb_print (subbuffer_line subbuf_num))
       (handle_subbuffer d cpu buf rbbe cidx coffset (ooffset - coffset)))))))))"

section \<open>invoke\<close>

definition dump_metadata :: "string \<Rightarrow> string \<Rightarrow> unit dbg" where
  "dump_metadata dir session =
     (let f = dir @ ''/metadata'' in
      andthen (open_mode f ''w'')
     (andthen (write_file f (ascii (''/* CTF 1.8 */'' @ [NL])))
     (bnd (get_member_ptr session ''struct lttng_metadata_cache'' ''metadata_cache'') (\<lambda>mdcache.
      bnd (get_member_unsigned_long mdcache ''data'') (\<lambda>data.
      bnd (get_member_unsigned_long mdcache ''metadata_written'') (\<lambda>n.
      bnd (gdb_execute (AppendMemory f data (data + n))) (\<lambda>_. skip)))))))"

definition read_attributes :: "string \<Rightarrow> string \<Rightarrow> dump dbg" where
  "read_attributes dir backend =
     bnd (eval_int (backend @ ''->num_subbuf'')) (\<lambda>num.
     bnd (eval_int (backend @ ''->subbuf_size'')) (\<lambda>sub.
     bnd (get_ptr (''&('' @ backend @ ''->config)'') ''struct lib_ring_buffer_config'') (\<lambda>config.
     bnd (eval_int (config @ ''->tsc_bits'')) (\<lambda>tsc_bits.
     bnd (get_percpu_ptr (backend @ ''->buf'') 0 ''struct lib_ring_buffer'') (\<lambda>p.
     bnd (eval_int (p @ ''->last_tsc.v'')) (\<lambda>tsc.
     bnd (eval_int (p @ ''->backend.num_pages_per_subbuf'')) (\<lambda>pages.
     bnd (idiv sub pages) (\<lambda>page.
     bnd (eval_int ''sizeof(long)'') (\<lambda>long.
     let idshift = long * 8 div 2 in
     ret \<lparr>dumpdir = dir, num_subbuf = num, subbuf_size = sub, page_size = page,
       num_pages_per_subbuf = pages, idmask = push_bit (nat idshift) 1 - 1, last_tsc = tsc\<rparr>)))))))))"

definition prepare_dumpdir :: "string \<Rightarrow> unit dbg" where
  "prepare_dumpdir dir = block [
     os_system (''mkdir -p '' @ dir),
     os_system (''rm -rf '' @ dir @ ''/channel*''),
     os_system (''rm -rf '' @ dir @ ''/dummy'')]"

definition dump_cpus :: "dump \<Rightarrow> string \<Rightarrow> unit dbg" where
  "dump_cpus d backend =
     bnd get_cpu_list (\<lambda>cpus.
       for_each cpus (\<lambda>cpu.
         bnd (get_percpu_ptr (backend @ ''->buf'') cpu ''struct lib_ring_buffer'') (handle_buffer d cpu)))"

definition invoke_dumpltt :: "string \<Rightarrow> unit dbg" where
  "invoke_dumpltt args =
     bnd (ask (\<lambda>G. argv_of G args)) (\<lambda>argv.
       case argv of
         [lttdir, dir] \<Rightarrow>
           andthen (block [
             prepare_dumpdir dir,
             find_and_load_module (lttdir @ ''/lttng-tracer.o'') ''lttng_tracer'',
             find_and_load_module (lttdir @ ''/lib/lttng-lib-ring-buffer.o'') ''lttng_lib_ring_buffer''])
          (bnd (parse_and_eval ''PER_CPU_CHANNEL'') (\<lambda>per_cpu_channel.
           bnd (find_session_channel per_cpu_channel) (\<lambda>found. case found of
             None \<Rightarrow> raise (GdbError (''Unable to find operating session, are you sure ''
               @ ''lttng was running with --snapshot?''))
           | Some (session, backend) \<Rightarrow>
               andthen (dump_metadata dir session)
              (bnd (read_attributes dir backend) (\<lambda>d. dump_cpus d backend)))))
       | _ \<Rightarrow> raise (GdbError ''dumpltt <lttdir> <dumpdir>''))"

section \<open>They end\<close>

lemma returns_dump_pages [returns_rules]: "returns (dump_pages d cpu rbbep is off n w)"
  by (induction "is" arbitrary: off n w)
    (auto simp: page_ptr_def dump_page_def Let_def intro!: returns_rules)

lemma returns_dump_subbuffer [returns_rules]: "returns (dump_subbuffer d cpu rbbep start n)"
  unfolding dump_subbuffer_def by (intro returns_rules)

lemma returns_add_alignment [returns_rules]: "returns (add_alignment d cpu n)"
  unfolding add_alignment_def Let_def by (intro returns_rules)

lemma returns_put_value [returns_rules]: "returns (put_value d f p v)"
  unfolding put_value_def patch_file_def by (intro returns_rules)

lemma returns_fix_header [returns_rules]: "returns (fix_header d f start w p)"
  unfolding fix_header_def by (intro returns_rules)

lemma returns_handle_subbuffer [returns_rules]: "returns (handle_subbuffer d cpu buf rbbe c off n)"
  unfolding handle_subbuffer_def data_size_def Let_def by (intro returns_rules)

lemma returns_position [returns_rules]: "returns (position d pos)"
  unfolding position_def by (intro returns_rules)

end
