(* ===== verification/LttPages.thy ===== *)
theory LttPages
  imports LttDump
begin

text \<open>
  The alignment of sizes, the bytes of a subbuffer \<open>dump_subbuffer\<close> copies to the file of its CPU,
  and a small debugger for the witnesses.
\<close>

section \<open>Alignment\<close>

lemma and_not_pow2: "(v :: int) AND NOT (2 ^ k - 1) = (v div 2 ^ k) * 2 ^ k"
proof -
  have "v AND NOT (2 ^ k - 1) = push_bit k (drop_bit k v)"
    by (rule bit_eqI) (auto simp: bit_simps mask_eq_exp_minus_1 [symmetric])
  then show ?thesis by (simp add: push_bit_eq_mult drop_bit_eq_div)
qed

lemma align_bounds:
  "2 ^ k dvd align v (2 ^ k)" "v \<le> align v (2 ^ k)" "align v (2 ^ k) < v + 2 ^ k"
proof -
  let ?a = "2 ^ k :: int"
  have al: "align v ?a = ((v + (?a - 1)) div ?a) * ?a"
    unfolding align_def by (rule and_not_pow2)
  have split: "(v + (?a - 1)) div ?a * ?a + (v + (?a - 1)) mod ?a = v + (?a - 1)"
    by (rule div_mult_mod_eq)
  have m: "0 \<le> (v + (?a - 1)) mod ?a" "(v + (?a - 1)) mod ?a < ?a" by simp_all
  show "2 ^ k dvd align v ?a" unfolding al by simp
  show "v \<le> align v ?a" unfolding al using split m by linarith
  show "align v ?a < v + ?a" unfolding al using split m by linarith
qed

text \<open>
  C37: For a page size that is a power of two, \<open>align\<close> gives the least multiple of it that is not
  below the size.
\<close>

theorem align_least_multiple:
  "2 ^ k dvd align v (2 ^ k) \<and> v \<le> align v (2 ^ k)
    \<and> (\<forall>m. 2 ^ k dvd m \<and> v \<le> m \<longrightarrow> align v (2 ^ k) \<le> m)"
proof -
  have "align v (2 ^ k) \<le> m" if "2 ^ k dvd m" and "v \<le> m" for m
  proof -
    from that(1) obtain q where q: "m = 2 ^ k * q" ..
    from align_bounds(1) [of k v] obtain p where p: "align v (2 ^ k) = 2 ^ k * p" ..
    have "(2 :: int) ^ k * p < 2 ^ k * (q + 1)"
      using align_bounds(3) [of v k] that(2) by (simp add: p q algebra_simps)
    then have "p < q + 1" by (simp add: mult_less_cancel_left_pos)
    then show ?thesis unfolding p q by (intro mult_left_mono) simp_all
  qed
  with align_bounds show ?thesis by blast
qed

theorem align_least_multiple_witness:
  "align 5000 4096 = 8192 \<and> (8192::int) \<le> 12288"
proof -
  have "(2 :: int) ^ 12 = 4096" by simp
  with align_least_multiple [of 12 5000] have "\<forall>m. 4096 dvd m \<and> 5000 \<le> m \<longrightarrow> align 5000 4096 \<le> m"
    by simp
  moreover have "align 5000 4096 = 8192" by (simp add: align_def)
  ultimately show ?thesis by simp
qed

section \<open>Memory\<close>

text \<open>The bytes gdb can read; the \<open>n\<close> bytes from address \<open>a\<close>\<close>

type_synonym memory = "int \<Rightarrow> 8 word option"

definition readable :: "memory \<Rightarrow> int \<Rightarrow> nat \<Rightarrow> bool" where
  "readable mem a n \<longleftrightarrow> (\<forall>i < n. mem (a + int i) \<noteq> None)"

definition memory :: "memory \<Rightarrow> int \<Rightarrow> nat \<Rightarrow> bytes" where
  "memory mem a n = map (\<lambda>i. the (mem (a + int i))) [0..<n]"

text \<open>
  What the manual of gdb says of \<open>append memory\<close>: the bytes from the start address up to, not
  including, the end address are added to the file. An empty range is an error, and so is one that
  gdb cannot read.
\<close>

definition appends_memory :: "gdb \<Rightarrow> memory \<Rightarrow> bool" where
  "appends_memory G mem \<longleftrightarrow> (\<forall>h f a b fs. a < b \<and> readable mem a (nat (b - a)) \<longrightarrow>
     (\<exists>out. execute G h (AppendMemory f a b) fs = Inr (out, fs(f \<mapsto> content fs f @ memory mem a (nat (b - a))))))"

text \<open>
  The virtual addresses of the \<open>N\<close> pages of a subbuffer, as the expressions of the code give them;
  the \<open>ps\<close> bytes of each page can be read.
\<close>

definition pages_at :: "gdb \<Rightarrow> memory \<Rightarrow> nat \<Rightarrow> nat \<Rightarrow> string \<Rightarrow> (nat \<Rightarrow> int) \<Rightarrow> bool" where
  "pages_at G mem ps N rbbep virt \<longleftrightarrow> (\<forall>i < N. readable mem (virt i) ps \<and> (\<forall>h. \<exists>v a.
     eval G h (''(void *) &('' @ rbbep @ ''->p['' @ str_of_nat i @ ''])'') = Inr v
     \<and> eval G h (''((struct lib_ring_buffer_backend_page *) '' @ gtext v @ '')->virt'') = Inr a
     \<and> gnum a = virt i))"

lemma readable_part: "readable mem a n \<Longrightarrow> 0 \<le> off \<Longrightarrow> off + int m \<le> int n \<Longrightarrow> readable mem (a + off) m"
proof -
  assume r: "readable mem a n" and "0 \<le> off" and "off + int m \<le> int n"
  then have "mem (a + off + int i) \<noteq> None" if "i < m" for i
    using that spec [OF r [unfolded readable_def], of "nat off + i"] by (simp add: add.assoc)
  then show ?thesis by (simp add: readable_def)
qed

lemma length_memory [simp]: "length (memory mem a n) = n"
  by (simp add: memory_def)

lemma memory_take: "m \<le> n \<Longrightarrow> take m (memory mem a n) = memory mem a m"
  by (simp add: memory_def take_map)

lemma memory_drop: "drop m (memory mem a n) = memory mem (a + int m) (n - m)"
  by (rule nth_equalityI) (auto simp: memory_def algebra_simps)

text \<open>Only the files and the list of commands have changed, and of the files only \<open>f\<close>.\<close>

definition grown :: "string \<Rightarrow> bytes \<Rightarrow> gst \<Rightarrow> gst \<Rightarrow> bool" where
  "grown f bs s s' \<longleftrightarrow> content (files s') f = content (files s) f @ bs
     \<and> (\<forall>g. g \<noteq> f \<longrightarrow> files s' g = files s g)
     \<and> printed s' = printed s \<and> littleendian s' = littleendian s"

lemma grown_refl: "grown f [] s s"
  by (simp add: grown_def)

lemma grown_trans: "grown f bs s s1 \<Longrightarrow> grown f cs s1 s2 \<Longrightarrow> grown f (bs @ cs) s s2"
  by (simp add: grown_def)

lemma page_run:
  assumes "appends_memory G mem" and "pages_at G mem ps N rbbep virt" and "i < N"
    and "0 \<le> off" and "0 \<le> n" and "off + n \<le> int ps"
  shows "\<exists>p s'. page_ptr rbbep i G s = Some (Inr p, s)
    \<and> dump_page d cpu p off n G s = Some (Inr (), s')
    \<and> grown (channel_file d cpu) (memory mem (virt i + off) (nat n)) s s'"
proof -
  let ?f = "channel_file d cpu" and ?a = "virt i + off"
  obtain v where v: "eval G (commands s) (''(void *) &('' @ rbbep @ ''->p['' @ str_of_nat i @ ''])'') = Inr v"
    and a: "\<exists>a. eval G (commands s) (''((struct lib_ring_buffer_backend_page *) '' @ gtext v @ '')->virt'') = Inr a
      \<and> gnum a = virt i"
    using assms(2,3) unfolding pages_at_def by blast
  let ?p = "''((struct lib_ring_buffer_backend_page *) '' @ gtext v @ '')''"
  have p: "page_ptr rbbep i G s = Some (Inr ?p, s)"
    using v by (simp add: page_ptr_def get_ptr_def bnd_app parse_and_eval_app ret_app)
  show ?thesis
  proof (cases "n = 0")
    case True
    then have "dump_page d cpu ?p off n G s = Some (Inr (), s)" by (simp add: dump_page_def skip_app)
    with p True grown_refl show ?thesis by (auto simp: memory_def)
  next
    case False
    then have "?a < ?a + n" using assms(5) by simp
    moreover have "readable mem ?a (nat n)"
      using assms(2,3) readable_part [of mem "virt i" ps off "nat n"] assms(4-6) by (simp add: pages_at_def)
    ultimately obtain out where
      "execute G (commands s) (AppendMemory ?f ?a (?a + n)) (files s)
        = Inr (out, (files s)(?f \<mapsto> content (files s) ?f @ memory mem ?a (nat n)))"
      using assms(1) unfolding appends_memory_def by fastforce
    with False a have "dump_page d cpu ?p off n G s = Some (Inr (),
        s\<lparr>commands := commands s @ [AppendMemory ?f ?a (?a + n)],
          files := (files s)(?f \<mapsto> content (files s) ?f @ memory mem ?a (nat n))\<rparr>)"
      by (auto simp: dump_page_def bnd_app eval_int_app gdb_execute_def skip_app Let_def)
    with p show ?thesis by (auto simp: grown_def)
  qed
qed

text \<open>The bytes of the pages \<open>is\<close>, one page after the other\<close>

definition page_bytes :: "memory \<Rightarrow> (nat \<Rightarrow> int) \<Rightarrow> nat \<Rightarrow> nat list \<Rightarrow> bytes" where
  "page_bytes mem virt ps is = concat (map (\<lambda>i. memory mem (virt i) ps) is)"

lemma length_page_bytes [simp]: "length (page_bytes mem virt ps is) = ps * length is"
  by (induction "is") (simp_all add: page_bytes_def)

lemma page_bytes_Cons: "page_bytes mem virt ps (i # is) = memory mem (virt i) ps @ page_bytes mem virt ps is"
  by (simp add: page_bytes_def)

lemma dump_pages_run:
  assumes "appends_memory G mem" and "pages_at G mem ps N rbbep virt" and "page_size d = int ps"
    and "set is \<subseteq> {..<N}" and "off \<le> ps"
  shows "\<exists>s'. dump_pages d cpu rbbep is (int off) (int n) w G s
      = Some (Inr (w + int (min n (length (drop off (page_bytes mem virt ps is))))), s')
    \<and> grown (channel_file d cpu) (take n (drop off (page_bytes mem virt ps is))) s s'"
  using assms(4,5)
proof (induction "is" arbitrary: off n w s)
  case Nil
  then show ?case using grown_refl by (auto simp: ret_app page_bytes_def)
next
  case (Cons i "is")
  let ?bs = "page_bytes mem virt ps is" and ?f = "channel_file d cpu"
  have i: "i < N" and rest: "set is \<subseteq> {..<N}" using Cons.prems(1) by simp_all
  note page = page_run [OF assms(1,2) i]
  show ?case
  proof (cases "n > ps - off")
    case True
    have le: "int off + int (ps - off) \<le> int ps" using Cons.prems(2) by simp
    obtain p s1 where p: "page_ptr rbbep i G s = Some (Inr p, s)"
      and d1: "dump_page d cpu p (int off) (int (ps - off)) G s = Some (Inr (), s1)"
      and g1: "grown ?f (memory mem (virt i + int off) (ps - off)) s s1"
      using page [OF _ _ le, of s d cpu] by auto
    obtain s2 where d2: "dump_pages d cpu rbbep is (int 0) (int (n - (ps - off))) (w + int (ps - off)) G s1
        = Some (Inr (w + int (ps - off) + int (min (n - (ps - off)) (length (drop 0 ?bs)))), s2)"
      and g2: "grown ?f (take (n - (ps - off)) (drop 0 ?bs)) s1 s2"
      using Cons.IH [OF rest, of 0 "n - (ps - off)" "w + int (ps - off)" s1] by auto
    have room: "int ps - int off = int (ps - off)" "int n - int (ps - off) = int (n - (ps - off))"
      using Cons.prems True by simp_all
    have big: "int n > int (ps - off)" using True by simp
    have run: "dump_pages d cpu rbbep (i # is) (int off) (int n) w G s
        = Some (Inr (w + int (ps - off) + int (min (n - (ps - off)) (length ?bs))), s2)"
    proof -
      have d1': "dump_page d cpu p (int off) (int ps - int off) G s = Some (Inr (), s1)"
        using d1 by (simp only: room)
      have d2': "dump_pages d cpu rbbep is 0 (int n - (int ps - int off)) (w + (int ps - int off)) G s1
          = Some (Inr (w + int (ps - off) + int (min (n - (ps - off)) (length ?bs))), s2)"
        using d2 unfolding room(1) room(2) semiring_1_class.of_nat_0 drop_0 .
      have big': "int ps - int off < int n" unfolding room(1) by (rule big)
      show ?thesis
        unfolding dump_pages.simps assms(3) Let_def bnd_app p option.case prod.case sum.case
        by (simp only: big' if_True andthen_app d1' d2' option.case prod.case sum.case)
    qed
    have bytes: "take n (drop off (page_bytes mem virt ps (i # is)))
        = memory mem (virt i + int off) (ps - off) @ take (n - (ps - off)) ?bs"
      using Cons.prems True by (simp add: page_bytes_Cons memory_drop)
    let ?bs' = "page_bytes mem virt ps (i # is)"
    have "ps - off + min (n - (ps - off)) (length ?bs) = min n (length (drop off ?bs'))"
      using Cons.prems True by (simp add: page_bytes_Cons del: length_page_bytes)
    then have "w + int (ps - off) + int (min (n - (ps - off)) (length ?bs))
        = w + int (min n (length (drop off ?bs')))"
      by (metis add.assoc of_nat_add)
    moreover have "grown ?f (take n (drop off ?bs')) s s2"
      using grown_trans [OF g1 g2] unfolding bytes by simp
    ultimately show ?thesis using run by (intro exI [of _ s2]) (simp only: simp_thms)
  next
    case False
    have le: "int off + int n \<le> int ps" using False Cons.prems(2) by linarith
    obtain p s1 where p: "page_ptr rbbep i G s = Some (Inr p, s)"
      and d1: "dump_page d cpu p (int off) (int n) G s = Some (Inr (), s1)"
      and g1: "grown ?f (memory mem (virt i + int off) n) s s1"
      using page [OF _ _ le, of s d cpu] by auto
    have small: "\<not> int n > int ps - int off" using False Cons.prems by auto
    have "dump_pages d cpu rbbep (i # is) (int off) (int n) w G s = Some (Inr (w + int n), s1)"
      using p d1 small by (simp add: bnd_app andthen_app Let_def assms(3) ret_app)
    moreover have "take n (drop off (page_bytes mem virt ps (i # is))) = memory mem (virt i + int off) n"
      using False Cons.prems by (simp add: page_bytes_Cons memory_drop memory_take)
    moreover have "min n (length (drop off (page_bytes mem virt ps (i # is)))) = n"
      using False Cons.prems by (simp add: page_bytes_Cons min_def)
    ultimately show ?thesis using g1 by (intro exI [of _ s1]) (simp only: simp_thms)
  qed
qed

lemma page_bytes_from:
  "drop (start mod ps) (page_bytes mem virt ps [start div ps..<N]) = drop start (page_bytes mem virt ps [0..<N])"
proof (cases "start div ps \<le> N")
  case True
  then have "[0..<N] = [0..<start div ps] @ [start div ps..<N]"
    by (metis le_Suc_ex upt_add_eq_append zero_le)
  then have "page_bytes mem virt ps [0..<N]
      = page_bytes mem virt ps [0..<start div ps] @ page_bytes mem virt ps [start div ps..<N]"
    by (simp add: page_bytes_def)
  moreover have "start = ps * (start div ps) + start mod ps" by simp
  ultimately show ?thesis
    by (metis append_eq_conv_conj drop_drop length_page_bytes length_upt diff_zero add.commute)
next
  case False
  then have "ps * N \<le> ps * (start div ps)" by simp
  also have "\<dots> \<le> start" by simp
  finally show ?thesis using False by (simp add: page_bytes_def [of _ _ _ "[]"])
qed

text \<open>
  \<open>dump_subbuffer\<close> appends to the file of the CPU exactly the \<open>n\<close> bytes from offset \<open>start\<close> of the
  subbuffer, its pages taken in order, or those there are up to its end; it returns their number.
\<close>

lemma dump_subbuffer_bytes:
  assumes "appends_memory G mem" and "pages_at G mem ps N rbbep virt"
    and "page_size d = int ps" and "0 < ps" and "num_pages_per_subbuf d = int N"
    and "out = take n (drop start (page_bytes mem virt ps [0..<N]))"
  shows "\<exists>s'. dump_subbuffer d cpu rbbep (int start) (int n) G s = Some (Inr (int (length out)), s')
    \<and> grown (channel_file d cpu) out s s'"
proof -
  have "start mod ps \<le> ps" using assms(4) by (simp add: less_imp_le)
  have "set [start div ps..<N] \<subseteq> {..<N}" by auto
  from dump_pages_run [OF assms(1-3) this \<open>start mod ps \<le> ps\<close>, of cpu n 0 s]
  obtain s' where run: "dump_pages d cpu rbbep [start div ps..<N] (int (start mod ps)) (int n) 0 G s
      = Some (Inr (0 + int (min n (length (drop (start mod ps) (page_bytes mem virt ps [start div ps..<N]))))), s')"
    and g: "grown (channel_file d cpu)
      (take n (drop (start mod ps) (page_bytes mem virt ps [start div ps..<N]))) s s'"
    by blast
  have "int (min n (length (drop start (page_bytes mem virt ps [0..<N])))) = int (length out)"
    unfolding assms(6) by (simp add: min.commute)
  with run have "dump_pages d cpu rbbep [start div ps..<N] (int (start mod ps)) (int n) 0 G s
      = Some (Inr (int (length out)), s')"
    unfolding page_bytes_from by simp
  moreover have "int start div int ps = int (start div ps)" and "int start mod int ps = int (start mod ps)"
    by (simp_all add: zdiv_int zmod_int)
  ultimately have "dump_subbuffer d cpu rbbep (int start) (int n) G s = Some (Inr (int (length out)), s')"
    using assms(3-5) by (simp add: dump_subbuffer_def idiv_def imod_def bnd_app ret_app)
  with g show ?thesis unfolding page_bytes_from assms(6) by blast
qed

section \<open>A small debugger\<close>

text \<open>
  The memory holds at each address its low byte; a value is written in eight bytes, least
  significant first; the pages of the subbuffer are at multiples of 64.
\<close>

primrec le_bytes :: "nat \<Rightarrow> int \<Rightarrow> bytes" where
  "le_bytes 0 v = []"
| "le_bytes (Suc k) v = word_of_int v # le_bytes k (drop_bit 8 v)"

definition small_memory :: memory where
  "small_memory a = Some (word_of_int a)"

definition target_bytes :: "bool \<Rightarrow> int \<Rightarrow> bytes" where
  "target_bytes little v = (if little then le_bytes 8 v else rev (le_bytes 8 v))"

fun small_execute :: "gcmd list \<Rightarrow> gcmd \<Rightarrow> files \<Rightarrow> exn + (string \<times> files)" where
  "small_execute h (AppendMemory f a b) fs =
     (if a < b then Inr ([], fs(f \<mapsto> content fs f @ memory small_memory a (nat (b - a))))
      else Inl GdbEvalError)"
| "small_execute h (AppendValue f t v) fs = Inr ([], fs(f \<mapsto> content fs f @ target_bytes True v))"
| "small_execute h ShowEndian fs =
     Inr (''The target endianness is set automatically (currently little endian)'', fs)"
| "small_execute h c fs = Inr ([], fs)"

text \<open>A value whose text is the expression: enough to follow the pointers of the code\<close>

definition page_number :: "string \<Rightarrow> int" where
  "page_number x = int (length (filter (\<lambda>c. c = CHR ''1'') x))"

definition small_value :: "string \<Rightarrow> gval" where
  "small_value x = (if x = ''sizeof(uint64_t)'' then \<lparr>gnum = 8, gtext = ''8''\<rparr>
     else if contains x ''data_size'' then \<lparr>gnum = 100, gtext = ''100''\<rparr>
     else if contains x ''->virt'' then \<lparr>gnum = 64 * page_number x, gtext = []\<rparr>
     else \<lparr>gnum = 0, gtext = x\<rparr>)"

definition small_gdb :: gdb where
  "small_gdb = \<lparr>eval = (\<lambda>_ x. Inr (small_value x)), address_as_ulong = id, string_of = (\<lambda>v. Inr (gtext v)),
     execute = small_execute,
     argv_of = words, open_err = (\<lambda>_ _. False), system = (\<lambda>_ fs. fs)\<rparr>"

definition empty_gst :: gst where
  "empty_gst = \<lparr>files = (\<lambda>_. None), commands = [], printed = [], littleendian = None\<rparr>"

lemma small_appends_memory: "appends_memory small_gdb small_memory"
  by (simp add: appends_memory_def small_gdb_def)

definition small_virt :: "string \<Rightarrow> nat \<Rightarrow> int" where
  "small_virt rbbep i = gnum (small_value (''((struct lib_ring_buffer_backend_page *) ''
     @ gtext (small_value (''(void *) &('' @ rbbep @ ''->p['' @ str_of_nat i @ ''])'')) @ '')->virt''))"

lemma small_pages_at: "pages_at small_gdb small_memory ps N rbbep (small_virt rbbep)"
  by (simp add: pages_at_def readable_def small_memory_def small_gdb_def small_virt_def)

definition small_dump :: dump where
  "small_dump = \<lparr>dumpdir = ''/d'', num_subbuf = 2, subbuf_size = 128, page_size = 64,
     num_pages_per_subbuf = 2, idmask = 1, last_tsc = 0\<rparr>"

end
