(* ===== verification/LttHeader.thy ===== *)
theory LttHeader
  imports LttPages
begin

text \<open>
  Values in the file: what \<open>read_value\<close> makes of the bytes gdb writes for a number, and the packet
  that \<open>handle_subbuffer\<close> leaves in the file of the CPU with its corrected header.
\<close>

section \<open>Numbers as bytes\<close>

lemma value_of_snoc: "value_of (bs @ [c]) = push_bit 8 (value_of bs) OR uint c"
  by (simp add: value_of_def)

lemma length_le_bytes [simp]: "length (le_bytes k v) = k"
  by (induction k arbitrary: v) simp_all

lemma length_target_bytes [simp]: "length (target_bytes little v) = 8"
  by (simp add: target_bytes_def)

lemma value_of_le_bytes: "value_of (rev (le_bytes k v)) = take_bit (8 * k) v"
proof (induction k arbitrary: v)
  case 0
  then show ?case by (simp add: value_of_def)
next
  case (Suc k)
  have "value_of (rev (le_bytes (Suc k) v))
      = push_bit 8 (take_bit (8 * k) (drop_bit 8 v)) OR take_bit 8 v"
    by (simp add: value_of_snoc Suc uint_word_of_int_eq)
  also have "\<dots> = take_bit (8 * Suc k) v"
    by (rule bit_eqI) (auto simp: bit_simps)
  finally show ?case .
qed

text \<open>
  The documented behaviour of the other commands: \<open>append value\<close> adds the bytes of a 64-bit number
  in the byte order of the target, \<open>show endian\<close> names that order, and files can be opened.
\<close>

definition documented :: "gdb \<Rightarrow> memory \<Rightarrow> bool \<Rightarrow> bool" where
  "documented G mem little \<longleftrightarrow> appends_memory G mem
     \<and> (\<forall>h f v fs. \<exists>out. execute G h (AppendValue f ''uint64_t'' v) fs
          = Inr (out, fs(f \<mapsto> content fs f @ target_bytes little v)))
     \<and> (\<forall>h fs. \<exists>out. execute G h ShowEndian fs = Inr (out, fs) \<and> contains out ''little'' = little)
     \<and> (\<forall>h. \<exists>v. eval G h ''sizeof(uint64_t)'' = Inr v \<and> gnum v = 8)
     \<and> (\<forall>f m. \<not> open_err G f m)"

lemma small_documented: "documented small_gdb small_memory True"
proof -
  have "contains ''The target endianness is set automatically (currently little endian)'' ''little''"
    by code_simp
  then show ?thesis
    using small_appends_memory by (simp add: documented_def small_gdb_def small_value_def)
qed

text \<open>The cached answer of \<open>show endian\<close> is the byte order of the target.\<close>

definition endian_ok :: "bool \<Rightarrow> gst \<Rightarrow> bool" where
  "endian_ok little s \<longleftrightarrow> littleendian s = None \<or> littleendian s = Some little"

lemma is_little_endian_run:
  assumes "documented G mem little" and "endian_ok little s"
  shows "\<exists>s'. is_little_endian G s = Some (Inr little, s') \<and> endian_ok little s'
    \<and> files s' = files s \<and> printed s' = printed s"
proof (cases "littleendian s")
  case None
  obtain out where "execute G (commands s) ShowEndian (files s) = Inr (out, files s)"
    and "contains out ''little'' = little"
    using assms(1) unfolding documented_def by blast
  with None show ?thesis
    by (simp add: is_little_endian_def bnd_app andthen_app get_st_app gdb_execute_def modify_st_app
        ret_app Let_def endian_ok_def)
next
  case (Some b)
  with assms(2) show ?thesis
    by (simp add: is_little_endian_def bnd_app get_st_app ret_app endian_ok_def)
qed

lemma read_value_run:
  assumes "documented G mem little" and "endian_ok little s"
  shows "\<exists>s'. read_value bs ''uint64_t'' G s
      = Some (Inr (value_of (if little then rev (take 8 bs) else take 8 bs)), s')
    \<and> endian_ok little s' \<and> files s' = files s \<and> printed s' = printed s"
proof -
  obtain v where v: "eval G (commands s) ''sizeof(uint64_t)'' = Inr v" and "gnum v = 8"
    using assms(1) unfolding documented_def by blast
  moreover obtain s' where "is_little_endian G s = Some (Inr little, s')" and "endian_ok little s'"
    and "files s' = files s" and "printed s' = printed s"
    using is_little_endian_run [OF assms] by blast
  ultimately show ?thesis by (simp add: read_value_def bnd_app eval_int_app ret_app Let_def)
qed

text \<open>
  C29: Reading back the bytes gdb writes for a number gives the number modulo \<open>2 ^ 64\<close>, on targets of
  either byte order.
\<close>

theorem read_value_of_target_bytes:
  assumes "documented G mem little" and "endian_ok little s"
  shows "map_option fst (read_value (target_bytes little v @ rest) ''uint64_t'' G s)
    = Some (Inr (v mod 2 ^ 64))"
proof -
  have "value_of (if little then rev (take 8 (target_bytes little v @ rest))
      else take 8 (target_bytes little v @ rest)) = take_bit 64 v"
    using value_of_le_bytes [of 8 v] by (simp add: target_bytes_def)
  with read_value_run [OF assms, of "target_bytes little v @ rest"] show ?thesis
    by (auto simp: take_bit_eq_mod)
qed

theorem read_value_of_target_bytes_witness:
  "map_option fst (read_value (target_bytes True (2 ^ 64 + 300)) ''uint64_t'' small_gdb empty_gst)
    = Some (Inr 300)"
proof -
  have "endian_ok True empty_gst" by (simp add: endian_ok_def empty_gst_def)
  from read_value_of_target_bytes [OF small_documented this, of "2 ^ 64 + 300" "[]"] show ?thesis
    by simp
qed

section \<open>Patching a field\<close>

lemma value_to_binary_run:
  assumes "documented G mem little" and "files s (dir @ ''/dummy'') = None"
  shows "\<exists>s'. value_to_binary dir ''uint64_t'' v G s = Some (Inr (target_bytes little v), s')
    \<and> files s' = files s \<and> printed s' = printed s \<and> littleendian s' = littleendian s"
proof -
  let ?f = "dir @ ''/dummy''"
  obtain out where "execute G (commands s) (AppendValue ?f ''uint64_t'' v) (files s)
      = Inr (out, (files s)(?f \<mapsto> content (files s) ?f @ target_bytes little v))"
    using assms(1) unfolding documented_def by blast
  moreover have "content (files s) ?f = []" using assms(2) by (simp add: content_def)
  moreover have "\<not> open_err G ?f ''rb''" using assms(1) by (simp add: documented_def)
  moreover have "(files s)(?f := None) = files s" using assms(2) by (rule fun_upd_idem)
  ultimately show ?thesis
    by (simp add: value_to_binary_def bnd_app andthen_app gdb_execute_def open_mode_def file_content_app
        unlink_def modify_st_app ret_app Let_def)
qed

lemma put_value_run:
  assumes "documented G mem little" and "files s (dumpdir d @ ''/dummy'') = None"
  shows "\<exists>s'. put_value d f p v G s = Some (Inr (), s')
    \<and> files s' = (files s)(f \<mapsto> patch p (target_bytes little v) (content (files s) f))
    \<and> printed s' = printed s \<and> littleendian s' = littleendian s"
proof -
  obtain s1 where "value_to_binary (dumpdir d) ''uint64_t'' v G s = Some (Inr (target_bytes little v), s1)"
    and "files s1 = files s" and "printed s1 = printed s" and "littleendian s1 = littleendian s"
    using value_to_binary_run [OF assms] by blast
  then show ?thesis
    by (simp add: put_value_def patch_file_def bnd_app file_content_app write_file_app)
qed

section \<open>The header of a packet\<close>

text \<open>The bytes of the file after \<open>fix_header\<close>: a zero end timestamp becomes the largest one.\<close>

definition stored_value :: "bool \<Rightarrow> nat \<Rightarrow> bytes \<Rightarrow> int" where
  "stored_value little p bs =
     (let field = take 8 (drop p bs) in value_of (if little then rev field else field))"

definition fixed_header :: "bool \<Rightarrow> nat \<Rightarrow> int \<Rightarrow> int \<Rightarrow> bytes \<Rightarrow> bytes" where
  "fixed_header little start written padded bs =
     (let bs1 = (if stored_value little (start + 40) bs = 0
          then patch (start + 40) (target_bytes little 0xffffffffffffffff) bs else bs)
      in patch (start + 56) (target_bytes little (padded * 8))
          (patch (start + 48) (target_bytes little (written * 8)) bs1))"

lemma fix_header_run:
  assumes "documented G mem little" and "endian_ok little s"
    and "files s (dumpdir d @ ''/dummy'') = None" and "files s f = Some bs"
  shows "\<exists>s'. fix_header d f start written padded G s = Some (Inr (), s')
    \<and> files s' = (files s)(f \<mapsto> fixed_header little start written padded bs)
    \<and> printed s' = printed s \<and> endian_ok little s'"
proof -
  let ?dummy = "dumpdir d @ ''/dummy''"
  have f: "?dummy \<noteq> f" using assms(3,4) by auto
  have op: "open_mode f ''r+b'' G s = Some (Inr (), s)"
    using assms(1,4) by (simp add: open_mode_def documented_def content_def fun_upd_idem)
  obtain s1 where rd: "read_value (drop (start + 40) bs) ''uint64_t'' G s
      = Some (Inr (stored_value little (start + 40) bs), s1)"
    and s1: "endian_ok little s1" "files s1 = files s" "printed s1 = printed s"
    using read_value_run [OF assms(1,2), of "drop (start + 40) bs"]
    by (auto simp: stored_value_def Let_def)
  let ?z = "stored_value little (start + 40) bs = 0"
  let ?bs1 = "if ?z then patch (start + 40) (target_bytes little 0xffffffffffffffff) bs else bs"
  obtain s2 where r2: "whenc ?z (put_value d f (start + 40) 0xffffffffffffffff) G s1 = Some (Inr (), s2)"
    and s2: "files s2 = (files s)(f \<mapsto> ?bs1)" "printed s2 = printed s" "endian_ok little s2"
  proof (cases ?z)
    case True
    then show thesis
      using that put_value_run [OF assms(1), of s1 d f "start + 40" "0xffffffffffffffff"] s1 assms(3,4)
      by (auto simp: whenc_def content_def endian_ok_def)
  next
    case False
    then show thesis using that s1 assms(4) by (auto simp: whenc_def skip_app fun_upd_idem)
  qed
  have d2: "files s2 ?dummy = None" using s2(1) assms(3) f by simp
  obtain s3 where r3: "put_value d f (start + 48) (written * 8) G s2 = Some (Inr (), s3)"
    and s3: "files s3 = (files s)(f \<mapsto> patch (start + 48) (target_bytes little (written * 8)) ?bs1)"
      "printed s3 = printed s" "endian_ok little s3"
    using put_value_run [OF assms(1) d2, of f "start + 48" "written * 8"] s2 by (auto simp: endian_ok_def)
  have d3: "files s3 ?dummy = None" using s3(1) assms(3) f by simp
  obtain s4 where r4: "put_value d f (start + 56) (padded * 8) G s3 = Some (Inr (), s4)"
    and s4: "files s4 = (files s)(f \<mapsto> fixed_header little start written padded bs)"
      "printed s4 = printed s" "endian_ok little s4"
    using put_value_run [OF assms(1) d3, of f "start + 56" "padded * 8"] s3
    by (auto simp: endian_ok_def fixed_header_def Let_def)
  have "content (files s) f = bs" using assms(4) by (simp add: content_def)
  then have "fix_header d f start written padded G s = Some (Inr (), s4)"
    using op rd r2 r3 r4
    by (simp add: fix_header_def andthen_app bnd_app file_content_app skip_app)
  with s4 show ?thesis by blast
qed

text \<open>What the patches leave, by the laws of a file of bytes\<close>

lemma fixed_header_bytes:
  assumes "start + 64 \<le> length bs" and fs_def: "fs = fixed_header little start written padded bs"
  shows "length fs = length bs"
    and "read_at (start + 48) 8 fs = target_bytes little (written * 8)"
    and "read_at (start + 56) 8 fs = target_bytes little (padded * 8)"
    and "take (start + 40) fs = take (start + 40) bs"
    and "drop (start + 64) fs = drop (start + 64) bs"
    and "read_at (start + 40) 8 fs = (if stored_value little (start + 40) bs = 0
      then target_bytes little 0xffffffffffffffff else read_at (start + 40) 8 bs)"
proof -
  define b1 where "b1 = (if stored_value little (start + 40) bs = 0
      then patch (start + 40) (target_bytes little 0xffffffffffffffff) bs else bs)"
  define b2 where "b2 = patch (start + 48) (target_bytes little (written * 8)) b1"
  have fs: "fs = patch (start + 56) (target_bytes little (padded * 8)) b2"
    by (simp add: fs_def fixed_header_def Let_def b1_def b2_def)
  have l1: "length b1 = length bs"
    using assms(1) by (simp add: b1_def bytes_file.length_overwrite)
  have l2: "length b2 = length bs"
    using assms(1) l1 by (simp add: b2_def bytes_file.length_overwrite)
  show len: "length fs = length bs"
    using assms(1) l2 by (simp add: fs bytes_file.length_overwrite)
  show "read_at (start + 56) 8 fs = target_bytes little (padded * 8)"
    using bytes_file.overwrite_inside [of "start + 56" "target_bytes little (padded * 8)" b2] assms(1) l2
    by (simp add: fs)
  have "read_at (start + 48) 8 fs = read_at (start + 48) 8 b2"
    unfolding fs using assms(1) l2 by (intro bytes_file.overwrite_before) simp_all
  then show "read_at (start + 48) 8 fs = target_bytes little (written * 8)"
    using bytes_file.overwrite_inside [of "start + 48" "target_bytes little (written * 8)" b1] assms(1) l1
    by (simp add: b2_def)
  have before: "read_at q n fs = read_at q n b1" if "q + n \<le> start + 48" for q n
  proof -
    have "read_at q n fs = read_at q n b2"
      unfolding fs using assms(1) l2 that by (intro bytes_file.overwrite_before) simp_all
    also have "\<dots> = read_at q n b1"
      unfolding b2_def using assms(1) l1 that by (intro bytes_file.overwrite_before) simp_all
    finally show ?thesis .
  qed
  have "read_at (start + 40) 8 b1 = (if stored_value little (start + 40) bs = 0
      then target_bytes little 0xffffffffffffffff else read_at (start + 40) 8 bs)"
    using bytes_file.overwrite_inside [of "start + 40" "target_bytes little 0xffffffffffffffff" bs] assms(1)
    by (simp add: b1_def)
  with before [of "start + 40" 8] show "read_at (start + 40) 8 fs = (if stored_value little (start + 40) bs = 0
      then target_bytes little 0xffffffffffffffff else read_at (start + 40) 8 bs)" by simp
  have "read_at 0 (start + 40) b1 = read_at 0 (start + 40) bs"
    using bytes_file.overwrite_before [of "start + 40" "target_bytes little 0xffffffffffffffff" bs 0 "start + 40"]
      assms(1)
    by (simp add: b1_def)
  with before [of 0 "start + 40"] show "take (start + 40) fs = take (start + 40) bs"
    by (simp add: read_at_def)
  let ?n = "length bs - (start + 64)"
  have "read_at (start + 64) ?n fs = read_at (start + 64) ?n b2"
    unfolding fs using assms(1) l2 by (intro bytes_file.overwrite_after) simp_all
  also have "\<dots> = read_at (start + 64) ?n b1"
    unfolding b2_def using assms(1) l1 by (intro bytes_file.overwrite_after) simp_all
  also have "\<dots> = read_at (start + 64) ?n bs"
    using bytes_file.overwrite_after [of "start + 40" "target_bytes little 0xffffffffffffffff" bs "start + 64" ?n]
      assms(1)
    by (simp add: b1_def)
  finally show "drop (start + 64) fs = drop (start + 64) bs"
    using len by (simp add: read_at_def)
qed

section \<open>The packet of a subbuffer\<close>

lemma channel_not_dummy: "channel_file d cpu \<noteq> dumpdir d @ ''/dummy''"
  by (simp add: channel_file_def)

lemma get_file_size_run:
  assumes "documented G mem little"
  shows "get_file_size f G s = Some (Inr (length (content (files s) f)),
    s\<lparr>files := (files s)(f \<mapsto> content (files s) f)\<rparr>)"
  using assms
  by (simp add: get_file_size_def open_mode_def andthen_app bnd_app file_content_app ret_app documented_def)

lemma add_alignment_run:
  assumes "documented G mem little" and "0 \<le> n"
  shows "add_alignment d cpu n G s = Some (Inr (), s\<lparr>files := (files s)(channel_file d cpu \<mapsto>
    content (files s) (channel_file d cpu) @ replicate (nat n) 0)\<rparr>)"
  using assms
  by (simp add: add_alignment_def open_mode_def andthen_app bnd_app file_content_app write_file_app
      documented_def Let_def)

text \<open>
  The subbuffer at index \<open>cidx\<close>: its pages are at the addresses \<open>virt\<close>, can be read, and it holds \<open>full\<close> bytes
  of data, as the expressions of the code say.
\<close>

definition subbuffer_at :: "gdb \<Rightarrow> memory \<Rightarrow> dump \<Rightarrow> string \<Rightarrow> string \<Rightarrow> int \<Rightarrow> (nat \<Rightarrow> int) \<Rightarrow> int \<Rightarrow> bool" where
  "subbuffer_at G mem d buf rbbe cidx virt full \<longleftrightarrow> (\<exists>rbbep.
     pages_at G mem (nat (page_size d)) (nat (num_pages_per_subbuf d)) rbbep virt \<and> (\<forall>s. \<exists>sid.
     eval_int (rbbe @ ''['' @ str_of_int cidx @ ''].id'') G s = Some (Inr sid, s)
     \<and> get_ptr (buf @ ''->backend.array['' @ str_of_int (sid AND idmask d) @ '']'')
         ''struct lib_ring_buffer_backend_pages'' G s = Some (Inr rbbep, s)
     \<and> data_size d buf cidx rbbep G s = Some (Inr full, s)))"

text \<open>The bytes the loop over the pages copies, and the zeros that fill the last page\<close>

definition wanted_bytes :: "int \<Rightarrow> int \<Rightarrow> nat \<Rightarrow> bytes \<Rightarrow> bytes" where
  "wanted_bytes len full start bs =
     take (nat (if 0 < len \<and> len < full then len else full)) (drop start bs)"

definition raw_packet :: "nat \<Rightarrow> bytes \<Rightarrow> bytes" where
  "raw_packet ps out = out @ replicate (nat (align (int (length out)) (int ps)) - length out) 0"

lemma align_ge: "x \<le> align x (2 ^ k)"
  by (rule align_bounds)

lemma handle_subbuffer_run:
  assumes doc: "documented G mem little" "endian_ok little s"
    and dummy: "files s (dumpdir d @ ''/dummy'') = None"
    and sub: "subbuffer_at G mem d buf rbbe cidx virt full" "0 < full"
    and geo: "page_size d = int ps" "ps = 2 ^ k" "num_pages_per_subbuf d = int N"
    and out: "out = wanted_bytes len full start (page_bytes mem virt ps [0..<N])"
    and f: "f = channel_file d cpu"
  shows "\<exists>s'. handle_subbuffer d cpu buf rbbe cidx (int start) len G s = Some (Inr (), s')
    \<and> files s' = (files s)(f \<mapsto> fixed_header little (length (content (files s) f)) (int (length out))
        (align (int (length out)) (int ps)) (content (files s) f @ raw_packet ps out))
    \<and> endian_ok little s'"
proof -
  define n where "n = (if len > 0 \<and> len < full then len else full)"
  define padded where "padded = align (int (length out)) (int ps)"
  let ?old = "content (files s) f"
  let ?s1 = "s\<lparr>files := (files s)(f \<mapsto> ?old)\<rparr>"
  have n: "0 < n" using sub(2) by (simp add: n_def)
  have out': "out = take (nat n) (drop start (page_bytes mem virt ps [0..<N]))"
    unfolding out wanted_bytes_def n_def by simp
  have padded: "int (length out) \<le> padded"
    unfolding padded_def geo(2) by (simp add: align_ge)
  obtain rbbep sid where pages: "pages_at G mem ps N rbbep virt"
    and ev: "eval_int (rbbe @ ''['' @ str_of_int cidx @ ''].id'') G s = Some (Inr sid, s)"
      "get_ptr (buf @ ''->backend.array['' @ str_of_int (sid AND idmask d) @ '']'')
         ''struct lib_ring_buffer_backend_pages'' G s = Some (Inr rbbep, s)"
      "data_size d buf cidx rbbep G s = Some (Inr full, s)"
    using sub(1) unfolding subbuffer_at_def geo(1,3) nat_int by meson
  have ps: "0 < ps" using geo(2) by simp
  have mem: "appends_memory G mem" using doc(1) by (simp add: documented_def)
  obtain s2 where copy: "dump_subbuffer d cpu rbbep (int start) n G ?s1 = Some (Inr (int (length out)), s2)"
    and g: "grown f out ?s1 s2"
    using dump_subbuffer_bytes [OF mem pages geo(1) ps geo(3) out', of cpu ?s1] n unfolding f by auto
  let ?raw = "?old @ raw_packet ps out"
  have files2: "(files s2)(f \<mapsto> content (files s2) f @ replicate (nat (padded - int (length out))) 0)
      = (files s)(f \<mapsto> ?raw)"
  proof (rule ext)
    fix h
    have "nat (padded - int (length out)) = nat padded - length out" by (simp add: nat_diff_distrib')
    then show "((files s2)(f \<mapsto> content (files s2) f @ replicate (nat (padded - int (length out))) 0)) h
        = ((files s)(f \<mapsto> ?raw)) h"
      using g by (simp add: grown_def raw_packet_def padded_def)
  qed
  let ?s3 = "s2\<lparr>files := (files s)(f \<mapsto> ?raw)\<rparr>"
  have al: "add_alignment d cpu (padded - int (length out)) G s2 = Some (Inr (), ?s3)"
    using add_alignment_run [OF doc(1), of "padded - int (length out)" d cpu s2] padded files2
    unfolding f by simp
  let ?s4 = "?s3\<lparr>printed := printed ?s3 @ [size_line padded (padded - int (length out)) n]\<rparr>"
  have e4: "endian_ok little ?s4" using doc(2) g by (simp add: endian_ok_def grown_def)
  have d4: "files ?s4 (dumpdir d @ ''/dummy'') = None"
    using dummy channel_not_dummy [of d cpu] unfolding f by simp
  have f4: "files ?s4 f = Some ?raw" by simp
  obtain s5 where hdr: "fix_header d f (length ?old) (int (length out)) padded G ?s4 = Some (Inr (), s5)"
    and s5: "files s5 = (files ?s4)(f \<mapsto> fixed_header little (length ?old) (int (length out)) padded ?raw)"
      "endian_ok little s5"
    using fix_header_run [OF doc(1) e4 d4 f4] by blast
  have size: "get_file_size f G s = Some (Inr (length ?old), ?s1)"
    by (rule get_file_size_run [OF doc(1)])
  note run = n copy al hdr size ev
  have "handle_subbuffer d cpu buf rbbe cidx (int start) len G s = Some (Inr (), s5)"
  proof (cases "0 < len \<and> len < full")
    case True
    then have "n = len" by (simp add: n_def)
    with run True show ?thesis
      unfolding handle_subbuffer_def Let_def f [symmetric] geo(1)
      by (simp add: bnd_app andthen_app gdb_print_app skip_app padded_def [symmetric] del: fun_upd_apply)
  next
    case False
    then have "n = full" unfolding n_def by (rule if_not_P)
    with run False show ?thesis
      unfolding handle_subbuffer_def Let_def f [symmetric] geo(1)
      by (auto simp add: bnd_app andthen_app gdb_print_app skip_app padded_def [symmetric] del: fun_upd_apply)
  qed
  with s5 show ?thesis unfolding padded_def by auto
qed

lemma stored_value_append:
  "p + 8 \<le> length bs \<Longrightarrow> stored_value little (length old + p) (old @ bs @ zs) = stored_value little p bs"
  by (simp add: stored_value_def Let_def)

lemma fixed_packet:
  assumes "64 \<le> length out" and "ps = 2 ^ k"
    and padded: "padded = align (int (length out)) (int ps)"
  obtains packet where
    "fixed_header little (length old) (int (length out)) padded (old @ raw_packet ps out) = old @ packet"
    and "int (length packet) = padded"
    and "read_at 40 8 packet = (if stored_value little 40 out = 0
      then target_bytes little 0xffffffffffffffff else read_at 40 8 out)"
    and "read_at 48 8 packet = target_bytes little (int (length out) * 8)"
    and "read_at 56 8 packet = target_bytes little (padded * 8)"
    and "take 40 packet = take 40 out"
    and "drop 64 packet = drop 64 (raw_packet ps out)"
proof -
  let ?n = "length old" and ?raw = "raw_packet ps out"
  define fs where "fs = fixed_header little ?n (int (length out)) padded (old @ ?raw)"
  have ge: "int (length out) \<le> padded" unfolding padded assms(2) by (simp add: align_ge)
  then have lraw: "int (length ?raw) = padded"
    by (simp add: raw_packet_def padded [symmetric])
  have room: "?n + 64 \<le> length (old @ ?raw)" using assms(1) by (simp add: raw_packet_def)
  note hdr = fixed_header_bytes [OF room fs_def]
  have "take ?n fs = take ?n (take (?n + 40) fs)" by simp
  also have "\<dots> = old" unfolding hdr(4) by simp
  finally have fs: "fs = old @ drop ?n fs" by (metis append_take_drop_id)
  have rd: "read_at p n (drop ?n fs) = read_at (?n + p) n fs" for p n
    by (simp add: read_at_def add.commute)
  show thesis
  proof (rule that [of "drop ?n fs"])
    show "fixed_header little ?n (int (length out)) padded (old @ ?raw) = old @ drop ?n fs"
      using fs unfolding fs_def .
    show "int (length (drop ?n fs)) = padded"
      using hdr(1) lraw by simp
    show "read_at 48 8 (drop ?n fs) = target_bytes little (int (length out) * 8)"
      unfolding rd by (rule hdr(2))
    show "read_at 56 8 (drop ?n fs) = target_bytes little (padded * 8)"
      unfolding rd by (rule hdr(3))
    show "read_at 40 8 (drop ?n fs) = (if stored_value little 40 out = 0
      then target_bytes little 0xffffffffffffffff else read_at 40 8 out)"
      unfolding rd hdr(6) using assms(1)
      by (simp add: raw_packet_def stored_value_append read_at_def)
    show "take 40 (drop ?n fs) = take 40 out"
    proof -
      have "take 40 (drop ?n fs) = drop ?n (take (?n + 40) fs)" by (simp add: take_drop add.commute)
      also have "\<dots> = take 40 out" unfolding hdr(4) using assms(1) by (simp add: raw_packet_def)
      finally show ?thesis .
    qed
    show "drop 64 (drop ?n fs) = drop 64 ?raw"
      using hdr(5) by (simp add: add.commute)
  qed
qed

text \<open>
  C21: When gdb behaves as documented and the subbuffer holds data, \<open>handle_subbuffer\<close> appends one
  packet to the file of the CPU and changes no other file: the wanted bytes from offset \<open>start\<close> on,
  filled with zeros up to a multiple of the page size, where the header says the size of the
  contents and of the packet in bits, a missing end timestamp is the largest one, and every byte
  outside the three fields is the one in memory.
\<close>

theorem handle_subbuffer_packet:
  assumes "documented G mem little" and "endian_ok little s"
    and "files s (dumpdir d @ ''/dummy'') = None"
    and "subbuffer_at G mem d buf rbbe cidx virt full" and "0 < full"
    and "page_size d = int ps" and "ps = 2 ^ k" and "num_pages_per_subbuf d = int N"
    and "out = wanted_bytes len full start (page_bytes mem virt ps [0..<N])" and "64 \<le> length out"
    and "padded = align (int (length out)) (int ps)" and "f = channel_file d cpu"
  shows "\<exists>s' packet. handle_subbuffer d cpu buf rbbe cidx (int start) len G s = Some (Inr (), s')
    \<and> files s' = (files s)(f \<mapsto> content (files s) f @ packet)
    \<and> int (length packet) = padded
    \<and> read_at 40 8 packet = (if stored_value little 40 out = 0
        then target_bytes little 0xffffffffffffffff else read_at 40 8 out)
    \<and> read_at 48 8 packet = target_bytes little (int (length out) * 8)
    \<and> read_at 56 8 packet = target_bytes little (padded * 8)
    \<and> take 40 packet = take 40 out
    \<and> drop 64 packet = drop 64 (raw_packet ps out)"
proof -
  obtain s' where run: "handle_subbuffer d cpu buf rbbe cidx (int start) len G s = Some (Inr (), s')"
    and fs: "files s' = (files s)(f \<mapsto> fixed_header little (length (content (files s) f))
      (int (length out)) padded (content (files s) f @ raw_packet ps out))"
    using handle_subbuffer_run [OF assms(1-9,12)] unfolding assms(11) by blast
  show ?thesis
    by (rule fixed_packet [OF assms(10,7,11), of little "content (files s) f"])
      (use run fs in auto)
qed

lemma small_subbuffer_at: "\<exists>virt. subbuffer_at small_gdb small_memory small_dump ''b'' ''w'' 0 virt 100"
proof -
  let ?p = "''((struct lib_ring_buffer_backend_pages *) (void *) b->backend.array[0])''"
  have v: "gnum (small_value ''w[0].id'') = 0"
    "gtext (small_value ''(void *) b->backend.array[0]'') = ''(void *) b->backend.array[0]''"
    "gnum (small_value ''(unsigned long) (b->commit_hot[0].seq.v)'') = 0"
    "gnum (small_value (?p @ ''->data_size'')) = 100"
    by code_simp+
  have z: "str_of_int 0 = ''0''" by code_simp
  have "eval_int (''w'' @ ''['' @ str_of_int 0 @ ''].id'') small_gdb s = Some (Inr 0, s)"
    and "get_ptr (''b'' @ ''->backend.array['' @ str_of_int (0 AND idmask small_dump) @ '']'')
         ''struct lib_ring_buffer_backend_pages'' small_gdb s = Some (Inr ?p, s)"
    and "data_size small_dump ''b'' 0 ?p small_gdb s = Some (Inr 100, s)" for s
    using v
    by (simp_all add: comp_simps get_ptr_def data_size_def get_member_unsigned_long_def
        small_gdb_def small_dump_def z)
  with small_pages_at [where rbbep = ?p] show ?thesis unfolding subbuffer_at_def by blast
qed

theorem handle_subbuffer_packet_witness:
  "\<exists>s' packet. handle_subbuffer small_dump 0 ''b'' ''w'' 0 (int 0) 0 small_gdb empty_gst = Some (Inr (), s')
    \<and> content (files s') ''/d/channel0_0'' = packet \<and> length packet = 128
    \<and> read_at 48 8 packet = target_bytes True 800 \<and> read_at 56 8 packet = target_bytes True 1024"
proof -
  obtain virt where sub: "subbuffer_at small_gdb small_memory small_dump ''b'' ''w'' 0 virt 100"
    using small_subbuffer_at by blast
  let ?out = "wanted_bytes 0 100 0 (page_bytes small_memory virt 64 [0..<2])"
  have out: "length ?out = 100" by (simp add: wanted_bytes_def)
  then have many: "64 \<le> length ?out" by simp
  have f: "channel_file small_dump 0 = ''/d/channel0_0''" by code_simp
  have al: "align (int 100) (int 64) = 128" by (simp add: align_def)
  have s: "endian_ok True empty_gst" "files empty_gst (dumpdir small_dump @ ''/dummy'') = None"
    by (simp_all add: endian_ok_def empty_gst_def)
  have geo: "page_size small_dump = int 64" "(64::nat) = 2 ^ 6" "num_pages_per_subbuf small_dump = int 2"
    by (simp_all add: small_dump_def)
  show ?thesis
    using handle_subbuffer_packet [OF small_documented s sub _ geo refl many refl refl, of 0]
    unfolding out f al by (auto simp: empty_gst_def content_def)
qed

end
