(* ===== verification/LttBuffer.thy ===== *)
theory LttBuffer
  imports LttHeader
begin

text \<open>
  The walk over the ring buffer of a CPU: which subbuffers \<open>handle_buffer\<close> dumps, from which
  offset, in which order, and that the walk ends.
\<close>

section \<open>The visits\<close>

text \<open>A visit: its number, the index of the subbuffer, the offset in it, and the length asked for.\<close>

type_synonym visit = "nat \<times> int \<times> int \<times> int"

definition dump_visit :: "dump \<Rightarrow> int \<Rightarrow> string \<Rightarrow> string \<Rightarrow> visit \<Rightarrow> unit dbg" where
  "dump_visit d cpu buf rbbe = (\<lambda>(k, idx, off, len).
     andthen (gdb_print (subbuffer_line k)) (handle_subbuffer d cpu buf rbbe idx off len))"

text \<open>
  The positions whose index the arithmetic of doubles gives exactly: those below \<open>2 ^ 53\<close>, and when
  they are negative, as the signed counter of a 32-bit target becomes, in a ring whose subbuffers
  have the size of a power of two and which is itself below \<open>2 ^ 53\<close>.
\<close>

definition precise :: "dump \<Rightarrow> int \<Rightarrow> bool" where
  "precise d pos \<longleftrightarrow> \<bar>pos\<bar> < 2 ^ 53 \<and> num_subbuf d < 2 ^ 53
     \<and> (0 \<le> pos \<or> num_subbuf d * subbuf_size d < 2 ^ 53 \<and> (\<exists>j. subbuf_size d = 2 ^ j))"

lemma precise_index:
  assumes "precise d pos" and "0 < num_subbuf d" and "0 < subbuf_size d"
  shows "ring_index pos (subbuf_size d) (num_subbuf d) = pos div subbuf_size d mod num_subbuf d"
  using assms ring_index_nonneg ring_index_negative unfolding precise_def by (cases "0 \<le> pos") auto

text \<open>The subbuffers from the one of \<open>consumed\<close> to the one of \<open>offset\<close>, going round the ring\<close>

definition visits :: "dump \<Rightarrow> int \<Rightarrow> int \<Rightarrow> visit list" where
  "visits d offset consumed =
     (let num = num_subbuf d; sub = subbuf_size d;
        cidx = consumed div sub mod num; oidx = offset div sub mod num;
        coffset = consumed mod sub; ooffset = offset mod sub;
        m = nat ((oidx - cidx) mod num)
      in map (\<lambda>i. (Suc i, (cidx + int i) mod num, if i = 0 then coffset else 0,
           if i < m then 0 else ooffset - (if m = 0 then coffset else 0))) [0..<Suc m])"

text \<open>One round of the loop is one visit.\<close>

lemma buffer_round_visit:
  assumes "cidx \<noteq> oidx" and "num_subbuf d \<noteq> 0"
  shows "buffer_round d cpu buf rbbe oidx (cidx, off, k) = andthen (dump_visit d cpu buf rbbe (k, cidx, off, 0))
    (ret (Inl ((cidx + 1) mod num_subbuf d, 0, Suc k)))"
  using assms
  by (simp add: buffer_round_def dump_visit_def andthen_def bnd_assoc imod_def)

lemma buffer_loop_visits:
  assumes num: "0 < num_subbuf d" and c: "0 \<le> cidx" "cidx < num_subbuf d"
    and o': "0 \<le> oidx" "oidx < num_subbuf d"
    and m: "m = nat ((oidx - cidx) mod num_subbuf d)"
  shows "iterate (buffer_round d cpu buf rbbe oidx) (cidx, off, 1) = andthen
    (for_each [0..<m] (\<lambda>i. dump_visit d cpu buf rbbe
      (Suc i, (cidx + int i) mod num_subbuf d, if i = 0 then off else 0, 0)))
    (ret (oidx, if m = 0 then off else 0, Suc m))"
proof -
  let ?num = "num_subbuf d"
  let ?b = "\<lambda>i. ((cidx + int i) mod ?num, if i = 0 then off else 0, Suc i)"
  have start: "(cidx, off, 1) = ?b 0" using c by simp
  have dist: "int m = (oidx - cidx) mod ?num" using num unfolding m by simp
  then have "(cidx + int m) mod ?num = oidx mod ?num" by (simp add: mod_simps)
  then have last: "(cidx + int m) mod ?num = oidx" using o' by simp
  have before: "(cidx + int i) mod ?num \<noteq> oidx" if "i < m" for i
  proof
    assume "(cidx + int i) mod ?num = oidx"
    then have "(oidx - cidx) mod ?num = int i mod ?num"
      by (metis add_diff_cancel_left' mod_diff_left_eq)
    moreover have "int i < ?num"
      using that dist pos_mod_bound [OF num, of "oidx - cidx"] by linarith
    ultimately have "int m = int i" using dist by simp
    with that show False by simp
  qed
  show ?thesis
    unfolding start
  proof (rule iterate_for_each [where b = ?b])
    fix i assume "i < m"
    with before num show "buffer_round d cpu buf rbbe oidx (?b i) = andthen
        (dump_visit d cpu buf rbbe (Suc i, (cidx + int i) mod ?num, if i = 0 then off else 0, 0))
        (ret (Inl (?b (Suc i))))"
      by (simp add: buffer_round_visit mod_simps add_ac)
  next
    show "buffer_round d cpu buf rbbe oidx (?b m) = ret (Inr (oidx, if m = 0 then off else 0, Suc m))"
      by (simp add: buffer_round_def last)
  qed
qed

section \<open>handle\_buffer\<close>

text \<open>The two positions of the ring buffer and the pointer to its table of subbuffers\<close>

definition ring_at :: "gdb \<Rightarrow> string \<Rightarrow> int \<Rightarrow> int \<Rightarrow> string \<Rightarrow> bool" where
  "ring_at G buf offset consumed rbbe \<longleftrightarrow> (\<forall>s.
     eval_int (buf @ ''->offset.v'') G s = Some (Inr offset, s)
     \<and> eval_int (buf @ ''->consumed.counter'') G s = Some (Inr consumed, s)
     \<and> get_ptr (buf @ ''->backend.buf_wsb'') ''struct lib_ring_buffer_backend_subbuffer'' G s
         = Some (Inr rbbe, s))"

definition buffer_line :: "int \<Rightarrow> string \<Rightarrow> string" where
  "buffer_line cpu buf = ''Handling cpu '' @ str_of_int cpu @ '' buffer '' @ buf"

lemma for_each_cong_upt:
  "(\<And>i. i < n \<Longrightarrow> f i = g (h i)) \<Longrightarrow> for_each [0..<n] f = for_each (map h [0..<n]) g"
  by (induction n) (simp_all add: for_each_append)

lemma position_run:
  "precise d pos \<Longrightarrow> 0 < num_subbuf d \<Longrightarrow> 0 < subbuf_size d \<Longrightarrow>
     position d pos G s = Some (Inr (pos div subbuf_size d mod num_subbuf d, pos mod subbuf_size d), s)"
  by (simp add: position_def precise_index comp_simps)

lemma handle_buffer_run:
  assumes ring: "ring_at G buf offset consumed rbbe" and small: "precise d offset" "precise d consumed"
    and num: "0 < num_subbuf d" and sub: "0 < subbuf_size d"
  shows "handle_buffer d cpu buf G s = for_each (visits d offset consumed) (dump_visit d cpu buf rbbe) G
      (s\<lparr>printed := printed s @ [buffer_line cpu buf]\<rparr>)"
proof -
  let ?num = "num_subbuf d" and ?s = "s\<lparr>printed := printed s @ [buffer_line cpu buf]\<rparr>"
  define cidx where "cidx = consumed div subbuf_size d mod ?num"
  define oidx where "oidx = offset div subbuf_size d mod ?num"
  define coff where "coff = consumed mod subbuf_size d"
  define ooff where "ooff = offset mod subbuf_size d"
  define m where "m = nat ((oidx - cidx) mod ?num)"
  define v where "v = (\<lambda>i. (Suc i, (cidx + int i) mod ?num, if i = 0 then coff else 0,
    if i < m then 0 else ooff - (if m = 0 then coff else 0)))"
  have range: "0 \<le> cidx" "cidx < ?num" "0 \<le> oidx" "oidx < ?num"
    using num by (simp_all add: cidx_def oidx_def)
  have vs: "visits d offset consumed = map v [0..<Suc m]"
    by (simp only: visits_def Let_def v_def m_def cidx_def oidx_def coff_def ooff_def)
  have dist: "int m = (oidx - cidx) mod ?num" using num unfolding m_def by simp
  then have "(cidx + int m) mod ?num = oidx mod ?num" by (simp add: mod_simps)
  then have last: "(cidx + int m) mod ?num = oidx" using range by simp
  have loop: "iterate (buffer_round d cpu buf rbbe oidx) (cidx, coff, 1) = andthen
      (for_each (map v [0..<m]) (dump_visit d cpu buf rbbe)) (ret (oidx, if m = 0 then coff else 0, Suc m))"
    unfolding buffer_loop_visits [OF num range m_def]
    by (subst for_each_cong_upt [where h = v and g = "dump_visit d cpu buf rbbe"]) (simp_all add: v_def)
  let ?tail = "\<lambda>(cidx, coffset, k). andthen (gdb_print (subbuffer_line k))
    (handle_subbuffer d cpu buf rbbe cidx coffset (ooff - coffset))"
  have "handle_buffer d cpu buf G s
      = bnd (iterate (buffer_round d cpu buf rbbe oidx) (cidx, coff, 1)) ?tail G ?s"
    using ring small num sub
    by (simp add: handle_buffer_def ring_at_def comp_simps position_run buffer_line_def
        cidx_def oidx_def coff_def ooff_def)
  also have "\<dots> = for_each (map v [0..<m] @ [v m]) (dump_visit d cpu buf rbbe) G ?s"
    unfolding loop for_each_append
    by (simp add: bnd_app andthen_app ret_app skip_app v_def dump_visit_def last
        split: option.split sum.split prod.split)
  finally show ?thesis unfolding vs by simp
qed

section \<open>A small ring\<close>

definition ring_value :: "int \<Rightarrow> int \<Rightarrow> string \<Rightarrow> gval" where
  "ring_value offset consumed x = (if x = ''b->offset.v'' then \<lparr>gnum = offset, gtext = []\<rparr>
     else if x = ''b->consumed.counter'' then \<lparr>gnum = consumed, gtext = []\<rparr> else small_value x)"

definition ring_gdb :: "int \<Rightarrow> int \<Rightarrow> gdb" where
  "ring_gdb offset consumed = small_gdb\<lparr>eval := (\<lambda>_ x. Inr (ring_value offset consumed x))\<rparr>"

definition ring_table :: string where
  "ring_table = ''((struct lib_ring_buffer_backend_subbuffer *) (void *) b->backend.buf_wsb)''"

lemma small_ring_at: "ring_at (ring_gdb offset consumed) ''b'' offset consumed ring_table"
proof -
  have "gtext (small_value ''(void *) b->backend.buf_wsb'') = ''(void *) b->backend.buf_wsb''" by code_simp
  then show ?thesis
    by (simp add: ring_at_def comp_simps get_ptr_def ring_gdb_def ring_value_def ring_table_def)
qed

section \<open>handle\_buffer in order\<close>

text \<open>
  C22: For a ring of at least one subbuffer, \<open>handle_buffer\<close> announces the CPU and then dumps, each
  in its turn, the subbuffers from that of \<open>consumed\<close> to that of \<open>offset\<close>: the first from the
  offset in it, the last up to the end of the data, and those between in full. The positions are in
  the range where the division of the code is exact.
\<close>

theorem handle_buffer_in_order:
  assumes "ring_at G buf offset consumed rbbe" and "precise d offset" and "precise d consumed" and "0 < num_subbuf d" and "0 < subbuf_size d"
  shows "handle_buffer d cpu buf G s = for_each (visits d offset consumed) (dump_visit d cpu buf rbbe) G
      (s\<lparr>printed := printed s @ [buffer_line cpu buf]\<rparr>)"
  by (rule handle_buffer_run [OF assms])

theorem handle_buffer_in_order_witness:
  "handle_buffer small_dump 0 ''b'' (ring_gdb 160 10) empty_gst
    = for_each [(1, 0, 10, 0), (2, 1, 0, 32)] (dump_visit small_dump 0 ''b'' ring_table) (ring_gdb 160 10)
        (empty_gst\<lparr>printed := [''Handling cpu 0 buffer b'']\<rparr>)"
proof -
  have "visits small_dump 160 10 = [(1, 0, 10, 0), (2, 1, 0, 32)]"
    by (simp add: visits_def small_dump_def Let_def)
  moreover have "buffer_line 0 ''b'' = ''Handling cpu 0 buffer b''" by code_simp
  moreover have "0 < num_subbuf small_dump" and "0 < subbuf_size small_dump"
    and "precise small_dump 160" and "precise small_dump 10"
    by (simp_all add: small_dump_def precise_def)
  ultimately show ?thesis
    using handle_buffer_in_order [OF small_ring_at [of 160 10], of small_dump 0 empty_gst]
    by (simp add: empty_gst_def)
qed

section \<open>The ring\<close>

lemma distinct_ring:
  assumes "0 < (num :: int)" and "m \<le> nat num"
  shows "distinct (map (\<lambda>i. (c + int i) mod num) [0..<m])"
proof -
  have "inj_on (\<lambda>i. (c + int i) mod num) {0..<m}"
  proof (rule inj_onI)
    fix i j assume i: "i \<in> {0..<m}" and j: "j \<in> {0..<m}" and eq: "(c + int i) mod num = (c + int j) mod num"
    then have "int i mod num = int j mod num" by (metis add_diff_cancel_left' mod_diff_left_eq)
    moreover have "int i < num" and "int j < num" using i j assms by auto
    ultimately show "i = j" by simp
  qed
  then show ?thesis by (simp add: distinct_map)
qed

lemma visits_shape:
  assumes "0 < num_subbuf d" and "vs = visits d offset consumed"
  shows "distinct (map (\<lambda>(k, idx, off, len). idx) vs)"
    and "\<forall>(k, idx, off, len) \<in> set vs. 0 \<le> idx \<and> idx < num_subbuf d"
    and "map fst vs = [1..<Suc (length vs)]"
    and "fst (snd (hd vs)) = consumed div subbuf_size d mod num_subbuf d"
    and "fst (snd (last vs)) = offset div subbuf_size d mod num_subbuf d"
proof -
  let ?num = "num_subbuf d"
  define cidx where "cidx = consumed div subbuf_size d mod ?num"
  define oidx where "oidx = offset div subbuf_size d mod ?num"
  define m where "m = nat ((oidx - cidx) mod ?num)"
  have "\<exists>off len. vs = map (\<lambda>i. (Suc i, (cidx + int i) mod ?num, off i, len i)) [0..<Suc m]"
    unfolding assms(2) visits_def Let_def m_def cidx_def oidx_def by (rule exI)+ (rule refl)
  then obtain off len
    where vs: "vs = map (\<lambda>i. (Suc i, (cidx + int i) mod ?num, off i, len i)) [0..<Suc m]" by blast
  have dist: "int m = (oidx - cidx) mod ?num" using assms(1) unfolding m_def by simp
  have "Suc m \<le> nat ?num" using dist pos_mod_bound [OF assms(1), of "oidx - cidx"] by linarith
  then show "distinct (map (\<lambda>(k, idx, off, len). idx) vs)"
    using distinct_ring [OF assms(1), of "Suc m" cidx] unfolding vs by (simp add: comp_def del: upt_Suc)
  show "\<forall>(k, idx, off, len) \<in> set vs. 0 \<le> idx \<and> idx < ?num"
    using assms(1) unfolding vs by auto
  show "map fst vs = [1..<Suc (length vs)]"
    unfolding vs by (simp add: comp_def map_Suc_upt del: upt_Suc)
  show "fst (snd (hd vs)) = consumed div subbuf_size d mod ?num"
    using assms(1) unfolding vs by (simp add: hd_map cidx_def del: upt_Suc)
  have "(cidx + int m) mod ?num = oidx mod ?num" unfolding dist by (simp add: mod_simps)
  then show "fst (snd (last vs)) = offset div subbuf_size d mod ?num"
    unfolding vs by (simp add: oidx_def)
qed

text \<open>
  C23: What \<open>handle_buffer\<close> dumps is a walk inside the ring, which goes over each subbuffer at most
  once, starts at the one \<open>consumed\<close> points into and ends at the one \<open>offset\<close> points into; the
  subbuffers are numbered from one. The positions are in the range where the division of the code
  is exact.
\<close>

theorem visits_once_around:
  assumes "ring_at G buf offset consumed rbbe" and "precise d offset" and "precise d consumed" and "0 < num_subbuf d" and "0 < subbuf_size d"
  shows "\<exists>vs. handle_buffer d cpu buf G s = for_each vs (dump_visit d cpu buf rbbe) G
      (s\<lparr>printed := printed s @ [buffer_line cpu buf]\<rparr>)
    \<and> distinct (map (\<lambda>(k, idx, off, len). idx) vs)
    \<and> (\<forall>(k, idx, off, len) \<in> set vs. 0 \<le> idx \<and> idx < num_subbuf d)
    \<and> map fst vs = [1..<Suc (length vs)]
    \<and> fst (snd (hd vs)) = consumed div subbuf_size d mod num_subbuf d
    \<and> fst (snd (last vs)) = offset div subbuf_size d mod num_subbuf d"
  using handle_buffer_run [OF assms] visits_shape [OF assms(4) refl] by blast

theorem visits_once_around_witness:
  "\<exists>vs. handle_buffer small_dump 0 ''b'' (ring_gdb 160 10) empty_gst
      = for_each vs (dump_visit small_dump 0 ''b'' ring_table) (ring_gdb 160 10)
          (empty_gst\<lparr>printed := [buffer_line 0 ''b'']\<rparr>)
    \<and> fst (snd (hd vs)) = 0 \<and> fst (snd (last vs)) = 1"
  using visits_once_around [OF small_ring_at [of 160 10], of small_dump 0 empty_gst]
  by (auto simp: small_dump_def empty_gst_def precise_def)

text \<open>
  C38: A ring whose data fill it exactly, or any number of times, cannot be told from an empty
  one: \<open>handle_buffer\<close> dumps the subbuffer \<open>consumed\<close> points into, and no other. Both positions are
  in the range where the division of the code is exact.
\<close>

theorem full_ring_looks_empty:
  assumes "ring_at G buf (consumed + n * (num_subbuf d * subbuf_size d)) consumed rbbe"
    and "precise d (consumed + n * (num_subbuf d * subbuf_size d))" and "precise d consumed"
    and "0 < num_subbuf d" and "0 < subbuf_size d"
  shows "handle_buffer d cpu buf G s
    = dump_visit d cpu buf rbbe (1, consumed div subbuf_size d mod num_subbuf d, consumed mod subbuf_size d, 0) G
        (s\<lparr>printed := printed s @ [buffer_line cpu buf]\<rparr>)"
proof -
  let ?num = "num_subbuf d" and ?sub = "subbuf_size d"
  let ?offset = "consumed + n * (?num * ?sub)"
  have split: "?offset = consumed + (n * ?num) * ?sub" by (simp add: mult.assoc)
  have "?offset div ?sub = consumed div ?sub + n * ?num" and "?offset mod ?sub = consumed mod ?sub"
    unfolding split using assms(5) by (simp_all add: mult.commute)
  then have "visits d ?offset consumed = [(1, consumed div ?sub mod ?num, consumed mod ?sub, 0)]"
    by (simp add: visits_def Let_def)
  then show ?thesis
    unfolding handle_buffer_run [OF assms] by (simp add: andthen_app skip_app split: option.split sum.split prod.split)
qed

theorem full_ring_looks_empty_witness:
  "handle_buffer small_dump 0 ''b'' (ring_gdb 256 0) empty_gst
      = dump_visit small_dump 0 ''b'' ring_table (1, 0, 0, 0) (ring_gdb 256 0)
          (empty_gst\<lparr>printed := [''Handling cpu 0 buffer b'']\<rparr>)"
proof -
  have "buffer_line 0 ''b'' = ''Handling cpu 0 buffer b''" by code_simp
  moreover have "ring_at (ring_gdb 256 0) ''b''
      (0 + 1 * (num_subbuf small_dump * subbuf_size small_dump)) 0 ring_table"
    using small_ring_at [of 256 0] by (simp add: small_dump_def)
  moreover have "0 < num_subbuf small_dump" and "0 < subbuf_size small_dump"
    and "precise small_dump (0 + 1 * (num_subbuf small_dump * subbuf_size small_dump))"
    and "precise small_dump 0"
    by (simp_all add: small_dump_def precise_def)
  ultimately show ?thesis
    using full_ring_looks_empty [of "ring_gdb 256 0" "''b''" 0 1 small_dump ring_table 0 empty_gst]
    by (simp add: empty_gst_def small_dump_def)
qed

section \<open>The walk ends\<close>

text \<open>
  The counters of the ring buffers, as the debugger reads them: from zero up, or in the range where
  the division of the code is exact. Outside it a negative position can have an index outside the
  ring (\<open>ring_index_outside\<close>), and the loop never meets it.
\<close>

definition counters_ok :: "gdb \<Rightarrow> dump \<Rightarrow> bool" where
  "counters_ok G d \<longleftrightarrow> (\<forall>h buf v. eval G h (buf @ ''->offset.v'') = Inr v
       \<or> eval G h (buf @ ''->consumed.counter'') = Inr v \<longrightarrow> 0 \<le> gnum v \<or> precise d (gnum v))"

text \<open>A computation that ends in every state of one debugger\<close>

definition ends_in :: "gdb \<Rightarrow> 'a dbg \<Rightarrow> bool" where
  "ends_in G m \<longleftrightarrow> (\<forall>s. m G s \<noteq> None)"

lemma returns_ends_in: "returns m \<Longrightarrow> ends_in G m"
  by (simp add: returns_def ends_in_def)

lemma ends_in_bnd:
  assumes "ends_in G m" and "\<And>x s s'. m G s = Some (Inr x, s') \<Longrightarrow> ends_in G (f x)"
  shows "ends_in G (bnd m f)"
  unfolding ends_in_def
proof
  fix s
  obtain r s' where m: "m G s = Some (r, s')" using assms(1) unfolding ends_in_def by fastforce
  show "bnd m f G s \<noteq> None"
    using m assms(2) [of s] by (cases r) (auto simp: bnd_app ends_in_def)
qed

lemma ends_in_andthen: "ends_in G m \<Longrightarrow> ends_in G k \<Longrightarrow> ends_in G (andthen m k)"
  unfolding andthen_def by (rule ends_in_bnd)

lemma ends_in_for_each: "(\<And>x. ends_in G (f x)) \<Longrightarrow> ends_in G (for_each xs f)"
  by (induction xs) (auto intro: ends_in_andthen returns_ends_in [OF returns_skip])

lemma returns_buffer_loop:
  assumes "0 < num_subbuf d" and "0 \<le> cidx" "cidx < num_subbuf d" "0 \<le> oidx" "oidx < num_subbuf d"
  shows "returns (iterate (buffer_round d cpu buf rbbe oidx) (cidx, coff, 1))"
  unfolding buffer_loop_visits [OF assms refl] dump_visit_def by (intro returns_rules)

definition in_ring :: "dump \<Rightarrow> int \<times> int \<Rightarrow> bool" where
  "in_ring d p \<longleftrightarrow> 0 < num_subbuf d \<and> 0 \<le> fst p \<and> fst p < num_subbuf d"

lemma position_in_ring:
  assumes "position d pos G s = Some (Inr p, s')" and "0 \<le> pos \<or> precise d pos"
    and "0 \<le> num_subbuf d" and "num_subbuf d < 2 ^ 53" and "0 \<le> subbuf_size d"
  shows "in_ring d p"
proof -
  have pos: "0 < num_subbuf d" "0 < subbuf_size d"
    and p: "p = (ring_index pos (subbuf_size d) (num_subbuf d), pos mod subbuf_size d)"
    using assms(1,3,5) by (auto simp: position_def ret_app raise_app split: if_splits)
  from assms(2) show ?thesis
    using ring_index_range [OF _ pos(2,1) assms(4)] precise_index [OF _ pos] pos(1) p
    by (auto simp: in_ring_def)
qed

lemma handle_buffer_ends:
  assumes ok: "counters_ok G d" and num: "0 \<le> num_subbuf d" "num_subbuf d < 2 ^ 53" and sub: "0 \<le> subbuf_size d"
  shows "ends_in G (handle_buffer d cpu buf)"
proof -
  let ?rest = "\<lambda>oidx ooff p. bnd (get_ptr (buf @ ''->backend.buf_wsb'')
      ''struct lib_ring_buffer_backend_subbuffer'') (\<lambda>rbbe.
    bnd (iterate (buffer_round d cpu buf rbbe oidx) (fst p, snd p, 1)) (\<lambda>(cidx, coffset, subbuf_num).
    andthen (gdb_print (subbuffer_line subbuf_num))
      (handle_subbuffer d cpu buf rbbe cidx coffset (ooff - coffset))))"
  have rest: "ends_in G (?rest oidx ooff p)" if "in_ring d p" and "in_ring d (oidx, ooff)" for oidx ooff p
  proof -
    have loop: "returns (iterate (buffer_round d cpu buf rbbe oidx) (fst p, snd p, 1))" for rbbe
      using that by (intro returns_buffer_loop) (simp_all add: in_ring_def)
    show ?thesis
      by (rule returns_ends_in, rule returns_bnd, rule returns_expressions, rule returns_bnd, rule loop)
        (intro returns_rules)
  qed
  note at = ends_in_bnd [OF returns_ends_in [OF returns_position]]
    and val = ends_in_bnd [OF returns_ends_in [OF returns_gdb(5)]]
  have counter: "0 \<le> v \<or> precise d v"
    if "eval_int (buf @ x) G s = Some (Inr v, s')" and "x = ''->offset.v'' \<or> x = ''->consumed.counter''"
    for v x s s'
    using that ok unfolding counters_ok_def
    by (cases "eval G (commands s) (buf @ x)") (auto simp: eval_int_app)
  show ?thesis
    unfolding handle_buffer_def case_prod_beta [of _ "_ :: int \<times> int"]
    apply (rule ends_in_andthen [OF returns_ends_in [OF returns_gdb(3)]])
    apply (rule val, rule at, rule val, rule at)
    subgoal for offset s2 s2' po s3 s3' consumed s4 s4' pc s5 s5'
      using rest [of pc "fst po" "snd po"] position_in_ring [OF _ counter num sub]
      by simp
    done
qed

text \<open>The loop is never left for an index outside the ring: it goes on or raises.\<close>

lemma outside_never_met:
  assumes "0 < num_subbuf d" and "\<not> (0 \<le> oidx \<and> oidx < num_subbuf d)" and "0 \<le> cidx" "cidx < num_subbuf d"
  shows "iterate (buffer_round d cpu buf rbbe oidx) (cidx, coff, k) G s \<noteq> Some (Inr x, s')"
proof
  assume run: "iterate (buffer_round d cpu buf rbbe oidx) (cidx, coff, k) G s = Some (Inr x, s')"
  have "case Inr x of Inl (e :: exn) \<Rightarrow> True | Inr x \<Rightarrow> False"
    by (rule iterate_invariant [where I = "\<lambda>b _. 0 \<le> fst b \<and> fst b < num_subbuf d"
          and Q = "\<lambda>r _. case r of Inl e \<Rightarrow> True | Inr x \<Rightarrow> False", OF run])
      (use assms in \<open>auto simp: buffer_round_def imod_def ret_app raise_app elim!: andthenE bndE split: if_splits\<close>)
  then show False by simp
qed

lemma outside_example:
  assumes "num_subbuf d = 4" and "subbuf_size d = 2 ^ 60" and "0 \<le> cidx" "cidx < 4"
  shows "position d (- 1) G s = Some (Inr (4, 2 ^ 60 - 1), s)"
    and "iterate (buffer_round d cpu buf rbbe 4) (cidx, coff, k) G s \<noteq> Some (Inr x, s')"
  using assms ring_index_outside outside_never_met [of d 4 cidx]
  by (simp_all add: position_def ret_app)

text \<open>
  C34: The dump of all CPUs ends, for every list of CPUs and every memory the debugger reads, when the
  counters of the ring buffers are not negative, or in the range where the division of the code is
  exact; the sizes are unsigned numbers, and there are fewer than \<open>2 ^ 53\<close> subbuffers.
\<close>

theorem dump_cpus_ends:
  assumes "counters_ok G d" and "0 \<le> num_subbuf d" and "num_subbuf d < 2 ^ 53" and "0 \<le> subbuf_size d"
  shows "dump_cpus d backend G s \<noteq> None"
proof -
  have "ends_in G (dump_cpus d backend)"
    unfolding dump_cpus_def
    by (intro ends_in_bnd ends_in_for_each handle_buffer_ends assms returns_ends_in returns_get_cpu_list
        returns_expressions)
  then show ?thesis by (simp add: ends_in_def)
qed

theorem dump_cpus_ends_witness:
  "dump_cpus small_dump ''c'' (ring_gdb 160 10) empty_gst \<noteq> None"
  by (rule dump_cpus_ends)
    (auto simp: counters_ok_def ring_gdb_def ring_value_def small_value_def page_number_def small_dump_def)

end
