(* ===== verification/LttStream.thy ===== *)
theory LttStream
  imports LttBuffer
begin

text \<open>
  The file of a CPU as a whole: \<open>handle_buffer\<close> writes a stream of packets which a reader finds
  again by the packet sizes in their headers.
\<close>

section \<open>Packets\<close>

definition packet_of :: "bool \<Rightarrow> nat \<Rightarrow> bytes \<Rightarrow> bytes" where
  "packet_of little ps out =
     fixed_header little 0 (int (length out)) (align (int (length out)) (int ps)) (raw_packet ps out)"

lemma patch_append: "p \<le> length bs \<Longrightarrow> patch (length old + p) v (old @ bs) = old @ patch p v bs"
  by (simp add: patch_def add.assoc)

lemma stored_value_shift: "stored_value little (length old + p) (old @ bs) = stored_value little p bs"
  by (simp add: stored_value_def)

lemma fixed_header_append:
  assumes "64 \<le> length bs"
  shows "fixed_header little (length old) w p (old @ bs) = old @ fixed_header little 0 w p bs"
proof -
  let ?ts = "target_bytes little"
  have l: "length (patch n (?ts v) b) = length bs" if "length b = length bs" "n \<le> 56" for n v b
    using that assms by (simp add: bytes_file.length_overwrite)
  show ?thesis
    unfolding fixed_header_def stored_value_shift Let_def
    using assms l [of bs 40] l [of bs 48] l [of "patch 40 _ bs" 48]
    by (simp add: patch_append)
qed

lemma packet_fields:
  assumes "64 \<le> length out" and "ps = 2 ^ k"
  shows "int (length (packet_of little ps out)) = align (int (length out)) (int ps)"
    and "read_at 56 8 (packet_of little ps out) = target_bytes little (int (length (packet_of little ps out)) * 8)"
    and "take 40 (packet_of little ps out) = take 40 out"
    and "drop 64 (packet_of little ps out) = drop 64 (raw_packet ps out)"
proof -
  obtain p where p: "fixed_header little (length ([] :: bytes)) (int (length out)) (align (int (length out)) (int ps))
      ([] @ raw_packet ps out) = [] @ p"
    "int (length p) = align (int (length out)) (int ps)"
    "read_at 56 8 p = target_bytes little (align (int (length out)) (int ps) * 8)"
    "take 40 p = take 40 out" "drop 64 p = drop 64 (raw_packet ps out)"
    by (rule fixed_packet [OF assms refl, of little "[]"], rule that, assumption+)
  then have "packet_of little ps out = p" by (simp add: packet_of_def)
  with p show "int (length (packet_of little ps out)) = align (int (length out)) (int ps)"
    and "read_at 56 8 (packet_of little ps out) = target_bytes little (int (length (packet_of little ps out)) * 8)"
    and "take 40 (packet_of little ps out) = take 40 out"
    and "drop 64 (packet_of little ps out) = drop 64 (raw_packet ps out)" by simp_all
qed

section \<open>Reading a stream\<close>

text \<open>
  What a reader of the trace does: the size of the packet, in bits, is at offset 56 of its header,
  and the next packet follows it. \<open>None\<close> is a broken stream; the number bounds the packets.
\<close>

primrec packets_in :: "nat \<Rightarrow> bool \<Rightarrow> bytes \<Rightarrow> bytes list option" where
  "packets_in 0 little bs = (if bs = [] then Some [] else None)"
| "packets_in (Suc n) little bs =
     (if bs = [] then Some []
      else let size = nat (stored_value little 56 bs) div 8 in
        if size = 0 \<or> length bs < size then None
        else map_option (Cons (take size bs)) (packets_in n little (drop size bs)))"

definition self_sized :: "bool \<Rightarrow> bytes \<Rightarrow> bool" where
  "self_sized little p \<longleftrightarrow> 64 \<le> length p \<and> stored_value little 56 p = 8 * int (length p)"

lemma packets_in_concat:
  assumes "\<forall>p \<in> set ps. self_sized little p"
  shows "packets_in (length ps) little (concat ps) = Some ps"
  using assms
proof (induction ps)
  case Nil
  then show ?case by simp
next
  case (Cons p ps)
  then have p: "64 \<le> length p" "stored_value little 56 p = 8 * int (length p)" by (simp_all add: self_sized_def)
  then have "stored_value little 56 (p @ concat ps) = 8 * int (length p)"
    by (simp add: stored_value_def)
  moreover have "nat (8 * int (length p)) div 8 = length p" by (simp add: nat_mult_distrib)
  ultimately show ?case using Cons p(1) by (auto simp: Let_def)
qed

lemma value_of_target_bytes:
  "value_of (if little then rev (target_bytes little v) else target_bytes little v) = v mod 2 ^ 64"
  using value_of_le_bytes [of 8 v] by (simp add: target_bytes_def take_bit_eq_mod)

lemma packet_self_sized:
  assumes "64 \<le> length out" and "ps = 2 ^ k" and "align (int (length out)) (int ps) < 2 ^ 61"
  shows "self_sized little (packet_of little ps out)"
proof -
  let ?p = "packet_of little ps out"
  have "stored_value little 56 ?p = (int (length ?p) * 8) mod 2 ^ 64"
    using packet_fields(2) [OF assms(1,2), of little] value_of_target_bytes [of little]
    by (simp add: stored_value_def read_at_def)
  also have "\<dots> = 8 * int (length ?p)"
    using assms(3) packet_fields(1) [OF assms(1,2), of little] by simp
  finally show ?thesis
    using packet_fields(1) [OF assms(1,2), of little] align_bounds(2) [of "int (length out)" k] assms(1,2)
    by (simp add: self_sized_def)
qed

section \<open>The file of a CPU\<close>

text \<open>
  The subbuffers a walk visits: the addresses of their pages and the number of bytes of data they
  hold, which is zero for one that nothing was written to.
\<close>

definition ring_data :: "gdb \<Rightarrow> memory \<Rightarrow> dump \<Rightarrow> string \<Rightarrow> string \<Rightarrow> (int \<Rightarrow> nat \<Rightarrow> int) \<Rightarrow> (int \<Rightarrow> int)
    \<Rightarrow> visit list \<Rightarrow> bool" where
  "ring_data G mem d buf rbbe virt full vs \<longleftrightarrow> (\<forall>(k, idx, off, len) \<in> set vs.
     0 \<le> full idx \<and> subbuffer_at G mem d buf rbbe idx (virt idx) (full idx))"

definition holding :: "(int \<Rightarrow> int) \<Rightarrow> visit list \<Rightarrow> visit list" where
  "holding full = filter (\<lambda>(k, idx, off, len). 0 < full idx)"

definition visit_bytes :: "memory \<Rightarrow> nat \<Rightarrow> nat \<Rightarrow> (int \<Rightarrow> nat \<Rightarrow> int) \<Rightarrow> (int \<Rightarrow> int) \<Rightarrow> visit \<Rightarrow> bytes" where
  "visit_bytes mem ps N virt full = (\<lambda>(k, idx, off, len).
     wanted_bytes len (full idx) (nat off) (page_bytes mem (virt idx) ps [0..<N]))"

text \<open>The debugger answers as documented, and the file of the CPU is apart from the scratch file.\<close>

definition dump_ready :: "gdb \<Rightarrow> memory \<Rightarrow> bool \<Rightarrow> dump \<Rightarrow> gst \<Rightarrow> bool" where
  "dump_ready G mem little d s \<longleftrightarrow> documented G mem little \<and> endian_ok little s
     \<and> files s (dumpdir d @ ''/dummy'') = None"

lemma dump_ready_after:
  assumes "dump_ready G mem little d s" and "files s' = (files s)(channel_file d cpu \<mapsto> bs)"
    and "endian_ok little s'"
  shows "dump_ready G mem little d s'"
  using assms channel_not_dummy [of d cpu] by (simp add: dump_ready_def)

text \<open>An empty subbuffer adds no packet; the file of the CPU is created.\<close>

lemma handle_subbuffer_empty:
  assumes doc: "documented G mem little" and sub: "subbuffer_at G mem d buf rbbe idx virt 0"
    and f: "f = channel_file d cpu"
  shows "handle_subbuffer d cpu buf rbbe idx off len G s
    = Some (Inr (), s\<lparr>files := (files s)(f \<mapsto> content (files s) f)\<rparr>)"
proof -
  obtain rbbep sid where
    "eval_int (rbbe @ ''['' @ str_of_int idx @ ''].id'') G s = Some (Inr sid, s)"
    "get_ptr (buf @ ''->backend.array['' @ str_of_int (sid AND idmask d) @ '']'')
       ''struct lib_ring_buffer_backend_pages'' G s = Some (Inr rbbep, s)"
    "data_size d buf idx rbbep G s = Some (Inr 0, s)"
    using sub unfolding subbuffer_at_def by meson
  with get_file_size_run [OF doc, of f s] show ?thesis
    by (simp add: handle_subbuffer_def Let_def f [symmetric] bnd_app skip_app del: fun_upd_apply)
qed

lemma dump_visit_run:
  assumes ready: "dump_ready G mem little d s"
    and geo: "page_size d = int ps" "ps = 2 ^ k" "num_pages_per_subbuf d = int N"
    and v: "v = (n, idx, off, len)" "0 \<le> off"
    and sub: "subbuffer_at G mem d buf rbbe idx (virt idx) (full idx)" "0 \<le> full idx"
    and big: "0 < full idx \<Longrightarrow> 64 \<le> length (visit_bytes mem ps N virt full v)"
    and f: "f = channel_file d cpu"
  shows "\<exists>s'. dump_visit d cpu buf rbbe v G s = Some (Inr (), s') \<and> dump_ready G mem little d s'
    \<and> files s' = (files s)(f \<mapsto> content (files s) f @ (if 0 < full idx
        then packet_of little ps (visit_bytes mem ps N virt full v) else []))"
proof -
  let ?out = "visit_bytes mem ps N virt full v" and ?old = "content (files s) f"
  let ?s = "s\<lparr>printed := printed s @ [subbuffer_line n]\<rparr>"
  have out: "?out = wanted_bytes len (full idx) (nat off) (page_bytes mem (virt idx) ps [0..<N])"
    by (simp add: visit_bytes_def v(1))
  have r: "documented G mem little" "endian_ok little ?s" "files ?s (dumpdir d @ ''/dummy'') = None"
    using ready by (simp_all add: dump_ready_def endian_ok_def)
  have "\<exists>s'. handle_subbuffer d cpu buf rbbe idx off len G ?s = Some (Inr (), s') \<and> endian_ok little s'
    \<and> files s' = (files s)(f \<mapsto> ?old @ (if 0 < full idx then packet_of little ps ?out else []))"
  proof (cases "0 < full idx")
    case True
    then have "64 \<le> length (raw_packet ps ?out)" using big by (simp add: raw_packet_def)
    then have "fixed_header little (length ?old) (int (length ?out)) (align (int (length ?out)) (int ps))
        (?old @ raw_packet ps ?out) = ?old @ packet_of little ps ?out"
      unfolding packet_of_def by (rule fixed_header_append)
    with handle_subbuffer_run [OF r sub(1) True geo out f] True v(2) show ?thesis by auto
  next
    case False
    with sub have "subbuffer_at G mem d buf rbbe idx (virt idx) 0" by simp
    from handle_subbuffer_empty [OF r(1) this f] False r(2) show ?thesis by (simp add: endian_ok_def)
  qed
  then obtain s' where run: "handle_subbuffer d cpu buf rbbe idx off len G ?s = Some (Inr (), s')"
    and s': "endian_ok little s'"
      "files s' = (files s)(f \<mapsto> ?old @ (if 0 < full idx then packet_of little ps ?out else []))" by blast
  have "dump_visit d cpu buf rbbe v G s = Some (Inr (), s')"
    using run by (simp add: dump_visit_def v(1) andthen_app gdb_print_app)
  with dump_ready_after [OF ready s'(2) [unfolded f] s'(1)] s'(2) show ?thesis by blast
qed

lemma dump_visits_run:
  assumes "dump_ready G mem little d s"
    and geo: "page_size d = int ps" "ps = 2 ^ k" "num_pages_per_subbuf d = int N"
    and "ring_data G mem d buf rbbe virt full vs"
    and "\<forall>v \<in> set (holding full vs). 64 \<le> length (visit_bytes mem ps N virt full v)"
    and "\<forall>(n, idx, off, len) \<in> set vs. 0 \<le> off"
    and f: "f = channel_file d cpu"
  shows "\<exists>s'. for_each vs (dump_visit d cpu buf rbbe) G s = Some (Inr (), s')
    \<and> content (files s') f = content (files s) f
        @ concat (map (\<lambda>v. packet_of little ps (visit_bytes mem ps N virt full v)) (holding full vs))
    \<and> (\<forall>g. g \<noteq> f \<longrightarrow> files s' g = files s g)"
  using assms(1,5,6,7)
proof (induction vs arbitrary: s)
  case Nil
  then show ?case by (simp add: skip_app holding_def)
next
  case (Cons v vs)
  obtain n idx off len where v: "v = (n, idx, off, len)" by (cases v)
  have off: "0 \<le> off" and sub: "subbuffer_at G mem d buf rbbe idx (virt idx) (full idx)" "0 \<le> full idx"
    and big: "0 < full idx \<Longrightarrow> 64 \<le> length (visit_bytes mem ps N virt full v)"
    using Cons.prems(2-4) by (simp_all add: v ring_data_def holding_def)
  from dump_visit_run [OF Cons.prems(1) geo v off sub big f]
  obtain s1 where run: "dump_visit d cpu buf rbbe v G s = Some (Inr (), s1)"
    and ready: "dump_ready G mem little d s1"
    and fs: "files s1 = (files s)(f \<mapsto> content (files s) f @ (if 0 < full idx
        then packet_of little ps (visit_bytes mem ps N virt full v) else []))"
    by blast
  obtain s2 where "for_each vs (dump_visit d cpu buf rbbe) G s1 = Some (Inr (), s2)"
    and "content (files s2) f = content (files s1) f
        @ concat (map (\<lambda>v. packet_of little ps (visit_bytes mem ps N virt full v)) (holding full vs))"
    and "\<forall>g. g \<noteq> f \<longrightarrow> files s2 g = files s1 g"
    using Cons.IH [OF ready] Cons.prems(2-4) by (auto simp: ring_data_def holding_def)
  then show ?case using run fs by (simp add: andthen_app holding_def v)
qed

lemma visit_offsets:
  assumes "0 < subbuf_size d"
  shows "\<forall>(n, idx, off, len) \<in> set (visits d offset consumed). 0 \<le> off"
  using assms by (auto simp: visits_def Let_def)

text \<open>
  C20: When gdb behaves as documented, \<open>handle_buffer\<close> leaves in an empty file of the CPU a stream of
  packets, one for each visited subbuffer that holds data, in the order of the visits and none for
  an empty one, which a reader that follows the packet sizes in the headers takes apart again into
  exactly these packets. Outside the three corrected fields a packet holds the bytes of its
  subbuffer and zeros up to the end of a page. No other file changes. The data copied from a
  subbuffer that holds any are at least a packet header long.
\<close>

theorem handle_buffer_stream:
  assumes "dump_ready G mem little d s" and "content (files s) f = []" and "f = channel_file d cpu"
    and "page_size d = int ps" and "ps = 2 ^ k" and "num_pages_per_subbuf d = int N"
    and "int (ps * (N + 1)) < 2 ^ 61"
    and "ring_at G buf offset consumed rbbe" and "precise d offset" and "precise d consumed"
    and "0 < num_subbuf d" and "0 < subbuf_size d"
    and "ring_data G mem d buf rbbe virt full (visits d offset consumed)"
    and "vs = holding full (visits d offset consumed)"
    and "\<forall>v \<in> set vs. 64 \<le> length (visit_bytes mem ps N virt full v)"
  shows "\<exists>s' packets. handle_buffer d cpu buf G s = Some (Inr (), s')
    \<and> length packets = length vs
    \<and> packets_in (length vs) little (content (files s') f) = Some packets
    \<and> map (take 40) packets = map (\<lambda>v. take 40 (visit_bytes mem ps N virt full v)) vs
    \<and> map (drop 64) packets = map (\<lambda>v. drop 64 (raw_packet ps (visit_bytes mem ps N virt full v))) vs
    \<and> (\<forall>g. g \<noteq> f \<longrightarrow> files s' g = files s g)"
proof -
  let ?out = "visit_bytes mem ps N virt full"
  let ?packets = "map (\<lambda>v. packet_of little ps (?out v)) vs"
  let ?s = "s\<lparr>printed := printed s @ [buffer_line cpu buf]\<rparr>"
  have "dump_ready G mem little d ?s" using assms(1) by (simp add: dump_ready_def endian_ok_def)
  from dump_visits_run [OF this assms(4-6,13) assms(15) [unfolded assms(14)] visit_offsets [OF assms(12)] assms(3)]
  obtain s' where run: "for_each (visits d offset consumed) (dump_visit d cpu buf rbbe) G ?s = Some (Inr (), s')"
    and c: "content (files s') f = concat ?packets" and other: "\<forall>g. g \<noteq> f \<longrightarrow> files s' g = files s g"
    using assms(2) unfolding assms(14) by auto
  have "self_sized little (packet_of little ps (?out v))" if "v \<in> set vs" for v
  proof (rule packet_self_sized)
    show "64 \<le> length (?out v)" using assms(15) that by blast
    have "length (?out v) \<le> ps * N"
      by (cases v) (simp add: visit_bytes_def wanted_bytes_def min.coboundedI1)
    then have "int (length (?out v)) + int ps \<le> int (ps * (N + 1))" by (simp add: algebra_simps flip: of_nat_mult of_nat_add)
    then show "align (int (length (?out v))) (int ps) < 2 ^ 61"
      using assms(7) align_bounds(3) [of "int (length (?out v))" k] by (simp add: assms(5))
  qed (rule assms(5))
  then have "packets_in (length ?packets) little (concat ?packets) = Some ?packets"
    by (intro packets_in_concat) auto
  moreover have "map (take 40) ?packets = map (\<lambda>v. take 40 (?out v)) vs"
    and "map (drop 64) ?packets = map (\<lambda>v. drop 64 (raw_packet ps (?out v))) vs"
    using assms(15) by (simp_all add: packet_fields(3,4) [OF _ assms(5)])
  moreover have "handle_buffer d cpu buf G s = Some (Inr (), s')"
    using run handle_buffer_run [OF assms(8-12), of cpu s] by simp
  ultimately show ?thesis using c other by (intro exI [of _ s'] exI [of _ ?packets]) simp
qed

text \<open>A ring of two subbuffers: the first holds 100 bytes, the second none.\<close>

definition half_pages :: "string \<Rightarrow> string" where
  "half_pages i = ''((struct lib_ring_buffer_backend_pages *) (void *) b->backend.array['' @ i @ ''])''"

definition half_value :: "string \<Rightarrow> gval" where
  "half_value x = (if x = ring_table @ ''[1].id'' then \<lparr>gnum = 1, gtext = ''1''\<rparr>
     else if x = half_pages ''1'' @ ''->data_size'' then \<lparr>gnum = 0, gtext = ''0''\<rparr>
     else ring_value 250 0 x)"

definition half_gdb :: gdb where
  "half_gdb = small_gdb\<lparr>eval := (\<lambda>_ x. Inr (half_value x))\<rparr>"

definition half_full :: "int \<Rightarrow> int" where
  "half_full idx = (if idx = 0 then 100 else 0)"

lemma half_documented: "documented half_gdb small_memory True"
proof -
  have "contains ''The target endianness is set automatically (currently little endian)'' ''little''"
    by code_simp
  then show ?thesis
    by (simp add: documented_def appends_memory_def half_gdb_def small_gdb_def half_value_def ring_table_def
        half_pages_def ring_value_def small_value_def)
qed

lemma half_ring_at: "ring_at half_gdb ''b'' 250 0 ring_table"
proof -
  have "gtext (small_value ''(void *) b->backend.buf_wsb'') = ''(void *) b->backend.buf_wsb''" by code_simp
  then show ?thesis
    by (simp add: ring_at_def comp_simps get_ptr_def half_gdb_def half_value_def ring_value_def ring_table_def
        half_pages_def)
qed

lemma half_pages_at: "pages_at half_gdb small_memory ps N rbbep (small_virt rbbep)"
  by (simp add: pages_at_def readable_def small_memory_def half_gdb_def half_value_def ring_table_def
      half_pages_def ring_value_def small_virt_def)

lemma half_subbuffer:
  assumes "gnum (half_value (ring_table @ ''['' @ str_of_int idx @ ''].id'')) = idx"
    and "gtext (half_value (''(void *) b->backend.array['' @ str_of_int (idx AND 1) @ '']''))
      = ''(void *) b->backend.array['' @ str_of_int idx @ '']''"
    and "gnum (half_value (''(unsigned long) (b->commit_hot['' @ str_of_int idx @ ''].seq.v)'')) = 0"
    and "gnum (half_value (half_pages (str_of_int idx) @ ''->data_size'')) = half_full idx"
  shows "subbuffer_at half_gdb small_memory small_dump ''b'' ring_table idx
    (small_virt (half_pages (str_of_int idx))) (half_full idx)"
proof -
  have "eval_int (ring_table @ ''['' @ str_of_int idx @ ''].id'') half_gdb s = Some (Inr idx, s)"
    and "get_ptr (''b'' @ ''->backend.array['' @ str_of_int (idx AND idmask small_dump) @ '']'')
       ''struct lib_ring_buffer_backend_pages'' half_gdb s = Some (Inr (half_pages (str_of_int idx)), s)"
    and "data_size small_dump ''b'' idx (half_pages (str_of_int idx)) half_gdb s = Some (Inr (half_full idx), s)" for s
    using assms
    by (simp_all add: comp_simps get_ptr_def data_size_def get_member_unsigned_long_def half_gdb_def
        small_dump_def half_pages_def)
  with half_pages_at show ?thesis unfolding subbuffer_at_def by blast
qed

lemma half_ring_data:
  "ring_data half_gdb small_memory small_dump ''b'' ring_table
    (\<lambda>idx. small_virt (half_pages (str_of_int idx))) half_full [(1, 0, 0, 0), (2, 1, 0, 122)]"
proof -
  have "subbuffer_at half_gdb small_memory small_dump ''b'' ring_table 0
      (small_virt (half_pages (str_of_int 0))) (half_full 0)"
    by (rule half_subbuffer; code_simp)
  moreover have "subbuffer_at half_gdb small_memory small_dump ''b'' ring_table 1
      (small_virt (half_pages (str_of_int 1))) (half_full 1)"
    by (rule half_subbuffer; code_simp)
  ultimately show ?thesis by (simp add: ring_data_def half_full_def)
qed

theorem handle_buffer_stream_witness:
  "\<exists>s' packets. handle_buffer small_dump 0 ''b'' half_gdb empty_gst = Some (Inr (), s')
    \<and> length packets = 1
    \<and> packets_in 1 True (content (files s') ''/d/channel0_0'') = Some packets"
proof -
  let ?out = "visit_bytes small_memory 64 2 (\<lambda>idx. small_virt (half_pages (str_of_int idx))) half_full"
  have vs: "visits small_dump 250 0 = [(1, 0, 0, 0), (2, 1, 0, 122)]"
    by (simp add: visits_def small_dump_def Let_def)
  have one: "[(1, 0, 0, 0)] = holding half_full (visits small_dump 250 0)"
    unfolding vs by (simp add: holding_def half_full_def)
  have big: "\<forall>v \<in> set [(1, 0, 0, 0)]. 64 \<le> length (?out v)"
    by (simp add: visit_bytes_def wanted_bytes_def half_full_def)
  have f: "''/d/channel0_0'' = channel_file small_dump 0" by code_simp
  have ready: "dump_ready half_gdb small_memory True small_dump empty_gst"
    by (simp add: dump_ready_def half_documented endian_ok_def empty_gst_def)
  have fresh: "content (files empty_gst) ''/d/channel0_0'' = []" by (simp add: empty_gst_def content_def)
  have geo: "page_size small_dump = int 64" "(64 :: nat) = 2 ^ 6" "num_pages_per_subbuf small_dump = int 2"
    "int (64 * (2 + 1)) < 2 ^ 61" "0 < num_subbuf small_dump" "0 < subbuf_size small_dump"
    by (simp_all add: small_dump_def)
  have small: "precise small_dump 250" "precise small_dump 0" by (simp_all add: precise_def small_dump_def)
  have length_one: "length [(1 :: nat, 0 :: int, 0 :: int, 0 :: int)] = 1" by simp
  from handle_buffer_stream [OF ready fresh f geo(1-4) half_ring_at small geo(5,6)
      half_ring_data [folded vs] one big, unfolded length_one]
  show ?thesis by blast
qed

end
