(* ===== verification/LttLists.thy ===== *)
theory LttLists
  imports LttBuffer
begin

text \<open>
  The searches of \<open>ltt.py\<close> along lists in the memory of the kernel (modules, sessions, channels) as
  instances of one contract, and the list of online CPUs.
\<close>

section \<open>A search along a list\<close>

text \<open>From \<open>p\<close>, each of \<open>ps\<close> leads the search to the next one, and the last to \<open>q\<close>.\<close>

fun chain :: "('p \<Rightarrow> ('e, 's, 'p + 'a) comp) \<Rightarrow> 'e \<Rightarrow> 's \<Rightarrow> 'p \<Rightarrow> 'p list \<Rightarrow> 'p \<Rightarrow> bool" where
  "chain turn G s p [] q \<longleftrightarrow> p = q"
| "chain turn G s p (x # xs) q \<longleftrightarrow>
     x = p \<and> (\<exists>p'. turn p G s = Some (Inr (Inl p'), s) \<and> chain turn G s p' xs q)"

lemma chain_snoc:
  "chain turn G s p ps q \<Longrightarrow> turn q G s = Some (Inr (Inl q'), s) \<Longrightarrow> chain turn G s p (ps @ [q]) q'"
  by (induction ps arbitrary: p) auto

lemma chain_iterate: "chain turn G s p ps q \<Longrightarrow> iterate turn p G s = iterate turn q G s"
  by (induction ps arbitrary: p) (auto dest: iterate_again [of turn])

text \<open>
  What the searches rely on: a round at the end of the list leaves the loop with nothing; a round
  inside it leaves the loop only with a find; rounds only read.
\<close>

locale list_search =
  fixes turn :: "'p \<Rightarrow> ('e, 's, 'p + 'a option) comp" and stop :: "'p \<Rightarrow> bool"
  assumes at_end: "stop p \<Longrightarrow> turn p G s = Some (Inr (Inr None), s)"
    and inside: "\<not> stop p \<Longrightarrow> yields (\<lambda>z. z \<noteq> Inr None) (turn p)"
    and reads: "keeps (\<lambda>_ s. s = s0) (turn p)"
begin

lemma same_state: "turn p G s = Some (r, s') \<Longrightarrow> s' = s"
  using keepsD [OF reads [of s] refl] by blast

lemma search_reads: "keeps (\<lambda>_ s. s = s0) (iterate turn p)"
  by (intro keeps_iterate reads)

lemma nothing_left:
  assumes "chain turn G s p ps q" and "stop q"
  shows "iterate turn p G s = Some (Inr None, s)"
  unfolding chain_iterate [OF assms(1)] by (rule iterate_leave) (rule at_end [OF assms(2)])

lemma found_first:
  assumes "chain turn G s p ps q" and "turn q G s = Some (Inr (Inr x), s)"
  shows "iterate turn p G s = Some (Inr x, s)"
  unfolding chain_iterate [OF assms(1)] by (rule iterate_leave) (rule assms(2))

lemma search_result:
  assumes run: "iterate turn p G s = Some (Inr x, s')"
  shows "s' = s \<and> (\<exists>ps q. chain turn G s p ps q \<and> (\<forall>p \<in> set ps. \<not> stop p)
    \<and> turn q G s = Some (Inr (Inr x), s) \<and> (x = None \<longleftrightarrow> stop q))"
proof -
  let ?I = "\<lambda>q t. t = s \<and> (\<exists>ps. chain turn G s p ps q \<and> (\<forall>p \<in> set ps. \<not> stop p))"
  let ?Q = "\<lambda>(r :: exn + _) t. \<forall>x. r = Inr x \<longrightarrow> t = s \<and> (\<exists>ps q. chain turn G s p ps q \<and> (\<forall>p \<in> set ps. \<not> stop p)
    \<and> turn q G s = Some (Inr (Inr x), s) \<and> (x = None \<longleftrightarrow> stop q))"
  have "?Q (Inr x) s'"
  proof (rule iterate_invariant [where I = ?I and Q = ?Q, OF run])
    show "?I p s" by (intro conjI refl exI [of _ "[]"]) simp_all
  next
    fix q t q' t'
    assume inv: "?I q t" and step: "turn q G t = Some (Inr (Inl q'), t')"
    from inv obtain ps where ps: "t = s" "chain turn G s p ps q" "\<forall>p \<in> set ps. \<not> stop p" by blast
    have t': "t' = s" using same_state [OF step] ps(1) by simp
    have "\<not> stop q" using step at_end [of q G t] by auto
    with ps step t' chain_snoc [of turn G s p ps q q'] show "?I q' t'"
      by (intro conjI exI [of _ "ps @ [q]"]) auto
  next
    fix q t y t'
    assume inv: "?I q t" and step: "turn q G t = Some (Inr (Inr y), t')"
    from inv obtain ps where ps: "t = s" "chain turn G s p ps q" "\<forall>p \<in> set ps. \<not> stop p" by blast
    have t': "t' = s" using same_state [OF step] ps(1) by simp
    have "y = None \<longleftrightarrow> stop q"
      using step at_end [of q G t] yieldsD [OF inside, of q G t "Inr y" t'] by auto
    with ps step t' show "?Q (Inr y) t'" by auto
  qed simp
  then show ?thesis by simp
qed

end

lemma keeps_reading [keeps_rules]:
  "keeps (\<lambda>_ s. s = s0) (parse_and_eval x)" "keeps (\<lambda>_ s. s = s0) (eval_int x)"
  "keeps (\<lambda>_ s. s = s0) (get_str x)" "keeps (\<lambda>_ s. s = s0) (fetch_container x a b)"
  by (auto intro!: keepsI simp: comp_simps get_str_def fetch_container_def calc_offset_def
      split: sum.splits)

lemma module_round_inside:
  "gnum p \<noteq> gnum head \<Longrightarrow> yields (\<lambda>z. z \<noteq> Inr None) (module_round modname off head p)"
  unfolding module_round_def by (simp only: if_False Let_def, intro yields_rules) simp_all

interpretation module_search: list_search "module_round modname off head" "\<lambda>p. gnum p = gnum head"
  for modname off head
proof
  show "gnum p = gnum head \<Longrightarrow> module_round modname off head p G s = Some (Inr (Inr None), s)" for p G s
    by (simp add: module_round_def ret_app)
  show "keeps (\<lambda>_ s. s = s0) (module_round modname off head p)" for s0 p
    unfolding module_round_def Let_def by (intro keeps_rules)
qed (rule module_round_inside)

lemma keeps_overwrite_channel [keeps_rules]: "keeps (\<lambda>_ s. s = s0) (overwrite_channel per_cpu_channel chan)"
  unfolding overwrite_channel_def Let_def by (intro keeps_rules)

lemma channel_round_inside:
  "gnum p \<noteq> gnum head \<Longrightarrow> yields (\<lambda>z. z \<noteq> Inr None) (channel_round per_cpu_channel head p)"
  unfolding channel_round_def
  by (auto intro!: yields_bnd_any yields_ret simp: next_entry_def split: option.split)

interpretation channel_search: list_search "channel_round per_cpu_channel head" "\<lambda>p. gnum p = gnum head"
  for per_cpu_channel head
proof
  show "gnum p = gnum head \<Longrightarrow> channel_round per_cpu_channel head p G s = Some (Inr (Inr None), s)" for p G s
    by (simp add: channel_round_def ret_app)
  show "keeps (\<lambda>_ s. s = s0) (channel_round per_cpu_channel head p)" for s0 p
    unfolding channel_round_def next_entry_def by (intro keeps_rules)
qed (rule channel_round_inside)

lemma keeps_find_channel [keeps_rules]: "keeps (\<lambda>_ s. s = s0) (find_channel per_cpu_channel head)"
  unfolding find_channel_def next_entry_def by (intro keeps_bnd keeps_reading channel_search.search_reads)

lemma session_round_inside:
  "gnum p \<noteq> gnum head \<Longrightarrow> yields (\<lambda>z. z \<noteq> Inr None) (session_round per_cpu_channel head p)"
  unfolding session_round_def
  by (auto intro!: yields_bnd_any yields_ret simp: next_entry_def split: option.split)

interpretation session_search: list_search "session_round per_cpu_channel head" "\<lambda>p. gnum p = gnum head"
  for per_cpu_channel head
proof
  show "gnum p = gnum head \<Longrightarrow> session_round per_cpu_channel head p G s = Some (Inr (Inr None), s)" for p G s
    by (simp add: session_round_def ret_app)
  show "keeps (\<lambda>_ s. s = s0) (session_round per_cpu_channel head p)" for s0 p
    unfolding session_round_def next_entry_def by (intro keeps_rules)
qed (rule session_round_inside)

section \<open>find\_module\<close>

definition next_of :: "gval \<Rightarrow> string" where
  "next_of p = ''((struct list_head *) '' @ gtext p @ '')->next''"

text \<open>
  The modules on the list from \<open>p\<close> on, as the expressions of the code see them: the pointer and the
  name of each, up to the head of the list.
\<close>

fun modules_from :: "gdb \<Rightarrow> gval \<Rightarrow> gval \<Rightarrow> gval \<Rightarrow> (string \<times> string) list \<Rightarrow> bool" where
  "modules_from G off head p [] \<longleftrightarrow> gnum p = gnum head"
| "modules_from G off head p ((name, modp) # ms) \<longleftrightarrow> gnum p \<noteq> gnum head
     \<and> (\<exists>v. modp = ''((struct module *) '' @ gtext v @ '')''
         \<and> (\<forall>h. eval G h (''((struct module *) (((char *) '' @ gtext p @ '') - '' @ gtext off @ ''))'') = Inr v))
     \<and> (\<forall>s. get_str (modp @ ''->name'') G s = Some (Inr name, s))
     \<and> (\<exists>q. (\<forall>h. eval G h (next_of p) = Inr q) \<and> modules_from G off head q ms)"

definition module_list :: "gdb \<Rightarrow> (string \<times> string) list \<Rightarrow> bool" where
  "module_list G ms \<longleftrightarrow> (\<exists>off m p.
     (\<forall>h. eval G h ''((int)&((struct module *)0).list)'' = Inr off) \<and> (\<forall>h. eval G h ''modules'' = Inr m)
     \<and> (\<forall>h. eval G h (next_of (address_as_ulong G m)) = Inr p)
     \<and> modules_from G off (address_as_ulong G m) p ms)"

lemma module_search_run:
  assumes "modules_from G off head p ms"
  shows "iterate (module_round modname off head) p G s = Some (Inr (map_of ms modname), s)"
  using assms
proof (induction ms arbitrary: p)
  case Nil
  then have "iterate (module_round modname off head) p G s = Some (Inr None, s)"
    by (intro module_search.nothing_left [where ps = "[]" and q = p]) simp_all
  then show ?case by simp
next
  case (Cons m ms)
  obtain name modp where m: "m = (name, modp)" by (cases m)
  with Cons.prems obtain v q where p: "gnum p \<noteq> gnum head" "modp = ''((struct module *) '' @ gtext v @ '')''"
      "\<And>h. eval G h (''((struct module *) (((char *) '' @ gtext p @ '') - '' @ gtext off @ ''))'') = Inr v"
      "\<And>s. get_str (modp @ ''->name'') G s = Some (Inr name, s)"
    and q: "\<And>h. eval G h (next_of p) = Inr q" "modules_from G off head q ms"
    by auto
  show ?case
  proof (cases "name = modname")
    case True
    then have "module_round modname off head p G s = Some (Inr (Inr (Some modp)), s)"
      using p by (simp add: module_round_def comp_simps Let_def)
    then have "iterate (module_round modname off head) p G s = Some (Inr (Some modp), s)"
      by (intro module_search.found_first [where ps = "[]" and q = p]) simp_all
    with True m show ?thesis by simp
  next
    case False
    have "module_round modname off head p G s = Some (Inr (Inl q), s)"
      using p q(1) [unfolded next_of_def] False by (simp add: module_round_def comp_simps Let_def)
    then have "chain (module_round modname off head) G s p [p] q" by simp
    from chain_iterate [OF this] Cons.IH [OF q(2)] False m show ?thesis by simp
  qed
qed

lemma find_module_run:
  assumes "module_list G ms"
  shows "find_module modname G s = Some (Inr (map_of ms modname), s)"
  using assms module_search_run
  by (auto simp: module_list_def find_module_def comp_simps next_of_def)

text \<open>
  C35: \<open>find_module\<close> returns the pointer of the first module of that name on the list of the kernel,
  and \<open>None\<close> when no module has it; it changes nothing.
\<close>

theorem find_module_first:
  assumes "module_list G ms"
  shows "find_module modname G s = Some (Inr (map_of ms modname), s)"
  by (rule find_module_run [OF assms])

section \<open>find\_session\_channel\<close>

lemma keeps_find_session_channel: "keeps (\<lambda>_ s. s = s0) (find_session_channel per_cpu_channel)"
  unfolding find_session_channel_def by (intro keeps_bnd keeps_reading session_search.search_reads)

lemma get_str_reads: "get_str x G s = Some (r, s') \<Longrightarrow> s' = s"
  using keepsD [OF keeps_reading(3) [of s] refl] by blast

text \<open>
  The entries of a list, by the pointers of the kernel from \<open>p\<close> to \<open>q\<close>, and what a search along them
  gives: nothing, after entries that do not fit up to the head, or what belongs to the first entry
  that fits.
\<close>

fun entries :: "gdb \<Rightarrow> gst \<Rightarrow> gval \<Rightarrow> gval list \<Rightarrow> gval \<Rightarrow> bool" where
  "entries G s p [] q \<longleftrightarrow> p = q"
| "entries G s p (x # xs) q \<longleftrightarrow>
     x = p \<and> (\<exists>p'. next_entry p G s = Some (Inr p', s) \<and> entries G s p' xs q)"

definition first_fit :: "gdb \<Rightarrow> gst \<Rightarrow> gval \<Rightarrow> gval \<Rightarrow> (gval \<Rightarrow> bool) \<Rightarrow> (gval \<Rightarrow> 'a \<Rightarrow> bool) \<Rightarrow> 'a option \<Rightarrow> bool" where
  "first_fit G s head p passed fits r \<longleftrightarrow> (\<exists>ps q. entries G s p ps q
     \<and> (\<forall>x \<in> set ps. gnum x \<noteq> gnum head \<and> passed x)
     \<and> (case r of None \<Rightarrow> gnum q = gnum head | Some y \<Rightarrow> gnum q \<noteq> gnum head \<and> fits q y))"

lemma chain_entries:
  assumes "chain turn G s p ps q"
    and "\<And>x p'. x \<in> set ps \<Longrightarrow> turn x G s = Some (Inr (Inl p'), s) \<Longrightarrow> next_entry x G s = Some (Inr p', s) \<and> passed x"
  shows "entries G s p ps q \<and> (\<forall>x \<in> set ps. passed x)"
  using assms by (induction ps arbitrary: p) fastforce+

text \<open>
  The channel an entry of a channel list belongs to is enabled, of the per-CPU type, and its own
  buffer, \<open>backend\<close>, is in overwrite mode.
\<close>

definition usable_channel :: "gdb \<Rightarrow> gst \<Rightarrow> gval \<Rightarrow> gval \<Rightarrow> string \<Rightarrow> bool" where
  "usable_channel G s per_cpu_channel p backend \<longleftrightarrow> (\<exists>chan enabled chantype b.
     fetch_container (gtext p) ''struct lttng_channel'' ''list'' G s = Some (Inr chan, s)
     \<and> eval_int (chan @ ''->enabled'') G s = Some (Inr enabled, s) \<and> enabled \<noteq> 0
     \<and> parse_and_eval (chan @ ''->channel_type'') G s = Some (Inr chantype, s)
     \<and> gnum chantype = gnum per_cpu_channel
     \<and> parse_and_eval (''&('' @ chan @ ''->chan->backend)'') G s = Some (Inr b, s)
     \<and> backend = ''((struct channel_backend *) '' @ gtext b @ '')''
     \<and> get_str (backend @ ''->name'') G s = Some (Inr ''relay-overwrite-mmap'', s))"

definition channel_result :: "gdb \<Rightarrow> gst \<Rightarrow> gval \<Rightarrow> gval \<Rightarrow> string option \<Rightarrow> bool" where
  "channel_result G s per_cpu_channel chans r \<longleftrightarrow> (\<exists>p. next_entry chans G s = Some (Inr p, s)
     \<and> first_fit G s chans p (\<lambda>x. \<forall>backend. \<not> usable_channel G s per_cpu_channel x backend)
         (usable_channel G s per_cpu_channel) r)"

text \<open>
  The session an entry belongs to is active, and \<open>backend\<close> is the first usable channel of its own
  list of channels; or it is passed over: not active, or without a usable channel.
\<close>

definition usable_session :: "gdb \<Rightarrow> gst \<Rightarrow> gval \<Rightarrow> gval \<Rightarrow> string \<times> string \<Rightarrow> bool" where
  "usable_session G s per_cpu_channel p = (\<lambda>(session, backend). \<exists>active chans.
     fetch_container (gtext p) ''struct lttng_session'' ''list'' G s = Some (Inr session, s)
     \<and> eval_int (session @ ''->active'') G s = Some (Inr active, s) \<and> active \<noteq> 0
     \<and> parse_and_eval (''&('' @ session @ ''->chan)'') G s = Some (Inr chans, s)
     \<and> channel_result G s per_cpu_channel chans (Some backend))"

definition idle_session :: "gdb \<Rightarrow> gst \<Rightarrow> gval \<Rightarrow> gval \<Rightarrow> bool" where
  "idle_session G s per_cpu_channel p \<longleftrightarrow> (\<exists>session active.
     fetch_container (gtext p) ''struct lttng_session'' ''list'' G s = Some (Inr session, s)
     \<and> eval_int (session @ ''->active'') G s = Some (Inr active, s)
     \<and> (active = 0 \<or> (\<exists>chans. parse_and_eval (''&('' @ session @ ''->chan)'') G s = Some (Inr chans, s)
          \<and> channel_result G s per_cpu_channel chans None)))"

text \<open>Computations that only read: what they return, in the same state\<close>

lemma reading_InrE:
  assumes "bnd m f G s = Some (Inr y, s')" and "keeps (\<lambda>_ t. t = s) m"
  obtains x where "m G s = Some (Inr x, s)" and "f x G s = Some (Inr y, s')"
  using assms(1)
proof (rule bnd_InrE)
  fix x s1
  assume m: "m G s = Some (Inr x, s1)" and f: "f x G s1 = Some (Inr y, s')"
  have "s1 = s" using keepsD [OF assms(2) refl m] .
  with m f that show thesis by blast
qed

lemma overwrite_channel_iff:
  "overwrite_channel per_cpu_channel chan G s = Some (Inr (Some backend), s) \<longleftrightarrow> (\<exists>enabled chantype b.
     eval_int (chan @ ''->enabled'') G s = Some (Inr enabled, s) \<and> enabled \<noteq> 0
     \<and> parse_and_eval (chan @ ''->channel_type'') G s = Some (Inr chantype, s)
     \<and> gnum chantype = gnum per_cpu_channel
     \<and> parse_and_eval (''&('' @ chan @ ''->chan->backend)'') G s = Some (Inr b, s)
     \<and> backend = ''((struct channel_backend *) '' @ gtext b @ '')''
     \<and> get_str (backend @ ''->name'') G s = Some (Inr ''relay-overwrite-mmap'', s))" (is "?run \<longleftrightarrow> ?says")
proof
  assume ?run
  then show ?says
    unfolding overwrite_channel_def Let_def
    by (auto simp: bnd_app eval_int_app parse_and_eval_app ret_app dest: get_str_reads
        split: sum.splits option.splits if_splits prod.splits)
next
  assume ?says
  then show ?run by (auto simp: overwrite_channel_def Let_def bnd_app ret_app)
qed

lemma usable_channel_iff:
  "usable_channel G s per_cpu_channel p backend \<longleftrightarrow> (\<exists>chan.
     fetch_container (gtext p) ''struct lttng_channel'' ''list'' G s = Some (Inr chan, s)
     \<and> overwrite_channel per_cpu_channel chan G s = Some (Inr (Some backend), s))"
  unfolding usable_channel_def overwrite_channel_iff by blast

lemma channel_round_cases:
  assumes run: "channel_round per_cpu_channel head q G s = Some (Inr z, s')" and q: "gnum q \<noteq> gnum head"
  shows "case z of Inl p' \<Rightarrow> next_entry q G s = Some (Inr p', s)
        \<and> (\<forall>backend. \<not> usable_channel G s per_cpu_channel q backend)
    | Inr r \<Rightarrow> (\<exists>backend. r = Some backend \<and> usable_channel G s per_cpu_channel q backend)"
proof -
  from run q obtain chan where chan: "fetch_container (gtext q) ''struct lttng_channel'' ''list'' G s = Some (Inr chan, s)"
    and r1: "bnd (overwrite_channel per_cpu_channel chan) (\<lambda>found. case found of
          Some backend \<Rightarrow> ret (Inr (Some backend))
        | None \<Rightarrow> bnd (next_entry q) (\<lambda>next. ret (Inl next))) G s = Some (Inr z, s')"
    unfolding channel_round_def by (auto elim!: reading_InrE [OF _ keeps_reading(4)])
  from r1 obtain found where found: "overwrite_channel per_cpu_channel chan G s = Some (Inr found, s)"
    and r2: "(case found of Some backend \<Rightarrow> ret (Inr (Some backend))
        | None \<Rightarrow> bnd (next_entry q) (\<lambda>next. ret (Inl next))) G s = Some (Inr z, s')"
    by (rule reading_InrE [OF _ keeps_overwrite_channel])
  show ?thesis
  proof (cases found)
    case None
    with chan found have "\<not> usable_channel G s per_cpu_channel q backend" for backend
      by (simp add: usable_channel_iff)
    with None r2 show ?thesis
      by (auto simp: next_entry_def bnd_app parse_and_eval_app ret_app split: sum.splits)
  next
    case (Some backend)
    with chan found r2 show ?thesis by (auto simp: usable_channel_iff ret_app)
  qed
qed

lemma find_channel_result:
  assumes "find_channel per_cpu_channel chans G s = Some (Inr r, s')"
  shows "channel_result G s per_cpu_channel chans r"
proof -
  let ?usable = "usable_channel G s per_cpu_channel"
  have reads: "keeps (\<lambda>_ t. t = s) (next_entry chans)"
    unfolding next_entry_def by (rule keeps_reading)
  from assms obtain p where p: "next_entry chans G s = Some (Inr p, s)"
    and run: "iterate (channel_round per_cpu_channel chans) p G s = Some (Inr r, s')"
    unfolding find_channel_def by (rule reading_InrE [OF _ reads])
  from channel_search.search_result [OF run] obtain ps q
    where ps: "chain (channel_round per_cpu_channel chans) G s p ps q" "\<forall>x \<in> set ps. gnum x \<noteq> gnum chans"
      and q: "channel_round per_cpu_channel chans q G s = Some (Inr (Inr r), s)" "r = None \<longleftrightarrow> gnum q = gnum chans"
    by blast
  have "entries G s p ps q \<and> (\<forall>x \<in> set ps. \<forall>backend. \<not> ?usable x backend)"
    by (rule chain_entries [OF ps(1)]) (use ps(2) in \<open>auto dest: channel_round_cases\<close>)
  moreover have "case r of None \<Rightarrow> gnum q = gnum chans | Some y \<Rightarrow> gnum q \<noteq> gnum chans \<and> ?usable q y"
    using q channel_round_cases [OF q(1)] by (auto split: option.split)
  ultimately show ?thesis using p ps(2) unfolding channel_result_def first_fit_def by blast
qed

lemma session_round_cases:
  assumes run: "session_round per_cpu_channel head q G s = Some (Inr z, s')" and q: "gnum q \<noteq> gnum head"
  shows "case z of Inl p' \<Rightarrow> next_entry q G s = Some (Inr p', s) \<and> idle_session G s per_cpu_channel q
    | Inr r \<Rightarrow> (\<exists>y. r = Some y \<and> usable_session G s per_cpu_channel q y)"
proof -
  let ?search = "\<lambda>w active. if active = 0 then ret None
    else bnd (parse_and_eval (''&('' @ w @ ''->chan)'')) (find_channel per_cpu_channel)"
  let ?next = "\<lambda>w x. case x of Some backend \<Rightarrow> ret (Inr (Some (w, backend)))
    | None \<Rightarrow> bnd (next_entry q) (\<lambda>next. ret (Inl next))"
  from run q obtain w where w: "fetch_container (gtext q) ''struct lttng_session'' ''list'' G s = Some (Inr w, s)"
    and r1: "bnd (eval_int (w @ ''->active'')) (\<lambda>active. bnd (?search w active) (?next w)) G s = Some (Inr z, s')"
    unfolding session_round_def by (auto elim!: reading_InrE [OF _ keeps_reading(4)])
  from r1 obtain active where active: "eval_int (w @ ''->active'') G s = Some (Inr active, s)"
    and r2: "bnd (?search w active) (?next w) G s = Some (Inr z, s')"
    by (rule reading_InrE [OF _ keeps_reading(2)])
  have reads: "keeps (\<lambda>_ t. t = s) (?search w active)" by (intro keeps_rules)
  from r2 obtain x where x: "?search w active G s = Some (Inr x, s)" and r3: "?next w x G s = Some (Inr z, s')"
    by (rule reading_InrE [OF _ reads])
  have found: "active = 0 \<and> x = None \<or> active \<noteq> 0 \<and> (\<exists>chans.
      parse_and_eval (''&('' @ w @ ''->chan)'') G s = Some (Inr chans, s)
      \<and> channel_result G s per_cpu_channel chans x)"
  proof (cases "active = 0")
    case True
    with x show ?thesis by (simp add: ret_app)
  next
    case False
    with x have "bnd (parse_and_eval (''&('' @ w @ ''->chan)'')) (find_channel per_cpu_channel) G s = Some (Inr x, s)"
      by simp
    then obtain chans where "parse_and_eval (''&('' @ w @ ''->chan)'') G s = Some (Inr chans, s)"
      and "find_channel per_cpu_channel chans G s = Some (Inr x, s)"
      by (rule reading_InrE [OF _ keeps_reading(1)])
    with False find_channel_result show ?thesis by blast
  qed
  show ?thesis
  proof (cases x)
    case None
    with found have "idle_session G s per_cpu_channel q"
      unfolding idle_session_def using w active by blast
    with None r3 show ?thesis
      by (auto simp: next_entry_def bnd_app parse_and_eval_app ret_app split: sum.splits)
  next
    case (Some backend)
    with found have "usable_session G s per_cpu_channel q (w, backend)"
      unfolding usable_session_def using w active by auto
    with Some r3 show ?thesis by (auto simp: ret_app)
  qed
qed

text \<open>
  C24: What \<open>find_session_channel\<close> returns is the first fit along the list of sessions of the kernel:
  the first session that is active and whose own list of channels has an enabled channel of the
  per-CPU type with a buffer named \<open>relay-overwrite-mmap\<close>, with the buffer of the first such channel;
  it returns nothing only at the end of the list, every session being idle or without such a
  channel. The search changes nothing.
\<close>

theorem find_session_channel_sound:
  assumes "find_session_channel per_cpu_channel G s = Some (Inr r, s')"
  shows "s' = s \<and> (\<exists>head p. parse_and_eval ''&sessions'' G s = Some (Inr head, s)
    \<and> parse_and_eval ''sessions.next'' G s = Some (Inr p, s)
    \<and> first_fit G s head p (idle_session G s per_cpu_channel) (usable_session G s per_cpu_channel) r)"
proof -
  let ?idle = "idle_session G s per_cpu_channel" and ?usable = "usable_session G s per_cpu_channel"
  from assms obtain head where head: "parse_and_eval ''&sessions'' G s = Some (Inr head, s)"
    and rest: "bnd (parse_and_eval ''sessions.next'') (iterate (session_round per_cpu_channel head)) G s
      = Some (Inr r, s')"
    unfolding find_session_channel_def by (rule reading_InrE [OF _ keeps_reading(1)])
  from rest obtain p where p: "parse_and_eval ''sessions.next'' G s = Some (Inr p, s)"
    and run: "iterate (session_round per_cpu_channel head) p G s = Some (Inr r, s')"
    by (rule reading_InrE [OF _ keeps_reading(1)])
  from session_search.search_result [OF run] obtain ps q where s': "s' = s"
    and ps: "chain (session_round per_cpu_channel head) G s p ps q" "\<forall>x \<in> set ps. gnum x \<noteq> gnum head"
    and q: "session_round per_cpu_channel head q G s = Some (Inr (Inr r), s)" "r = None \<longleftrightarrow> gnum q = gnum head"
    by blast
  have "entries G s p ps q \<and> (\<forall>x \<in> set ps. ?idle x)"
    by (rule chain_entries [OF ps(1)]) (use ps(2) in \<open>auto dest: session_round_cases\<close>)
  moreover have "case r of None \<Rightarrow> gnum q = gnum head | Some y \<Rightarrow> gnum q \<noteq> gnum head \<and> ?usable q y"
    using q session_round_cases [OF q(1)] by (auto split: option.split)
  ultimately show ?thesis using s' head p ps(2) unfolding first_fit_def by blast
qed

section \<open>The online CPUs\<close>

lemma mask_cpus_bits:
  "mask_cpus n m cpu = map (\<lambda>j. cpu + int j) (filter (\<lambda>j. bit m j) [0..<n])"
proof (induction n arbitrary: m cpu)
  case 0
  then show ?case by simp
next
  case (Suc n)
  have up: "[0..<Suc n] = 0 # map Suc [0..<n]" by (simp add: upt_rec [of 0 "Suc n"] map_Suc_upt del: upt_Suc)
  show ?case
    unfolding up by (simp add: Suc filter_map comp_def bit_simps and_one_eq odd_iff_mod_2_eq_one bit_0 algebra_simps)
qed

definition cpu_bit :: "nat \<Rightarrow> (nat \<Rightarrow> int) \<Rightarrow> nat \<Rightarrow> bool" where
  "cpu_bit w masks c \<longleftrightarrow> bit (masks (c div w)) (c mod w)"

lemma online_below:
  assumes "0 < w"
  shows "filter (cpu_bit w masks) [0..<w * k] @ map (\<lambda>j. w * k + j) (filter (\<lambda>j. bit (masks k) j) [0..<w])
    = filter (cpu_bit w masks) [0..<w * Suc k]"
proof -
  have "[0..<w * Suc k] = [0..<w * k] @ map (\<lambda>j. w * k + j) [0..<w]"
    using upt_add_eq_append [of 0 "w * k" w] by (simp add: map_add_upt add.commute)
  moreover have "filter (cpu_bit w masks) (map (\<lambda>j. w * k + j) [0..<w])
      = map (\<lambda>j. w * k + j) (filter (\<lambda>j. bit (masks k) j) [0..<w])"
    unfolding filter_map comp_def using assms by (intro arg_cong [where f = "map _"] filter_cong) (auto simp: cpu_bit_def)
  ultimately show ?thesis by simp
qed

text \<open>The mask of the online CPUs: \<open>nr\<close> words of \<open>u\<close> bytes\<close>

definition mask_at :: "gdb \<Rightarrow> nat \<Rightarrow> nat \<Rightarrow> (nat \<Rightarrow> int) \<Rightarrow> bool" where
  "mask_at G u nr masks \<longleftrightarrow> (\<forall>s. eval_int ''sizeof(unsigned long)'' G s = Some (Inr (int u), s)
     \<and> eval_int ''sizeof(__cpu_online_mask)'' G s = Some (Inr (int (nr * u)), s)
     \<and> (\<forall>i<nr. eval_int (''__cpu_online_mask.bits['' @ str_of_int (int i) @ '']'') G s
           = Some (Inr (masks i), s)))"

lemma scan_words:
  assumes "mask_at G u nr masks" and "0 < u" and "k \<le> nr"
  shows "fold_comp (scan_word (int u)) [0..<k] (0, []) G s
    = Some (Inr (int (u * 8 * k), map int (filter (cpu_bit (u * 8) masks) [0..<u * 8 * k])), s)"
  using assms(3)
proof (induction k)
  case 0
  show ?case by (simp add: ret_app)
next
  case (Suc k)
  let ?on = "\<lambda>k. map int (filter (cpu_bit (u * 8) masks) [0..<u * 8 * k])"
  have w: "nat (int u * 8) = u * 8" "max 0 (int u * 8) = int (u * 8)" by auto
  have "?on k @ mask_cpus (u * 8) (masks k) (int (u * 8 * k)) = ?on (Suc k)"
    using assms(2) unfolding mask_cpus_bits
    by (subst online_below [symmetric]) (simp_all add: comp_def)
  moreover have "eval_int (''__cpu_online_mask.bits['' @ str_of_int (int k) @ '']'') G s = Some (Inr (masks k), s)"
    using assms(1) Suc.prems unfolding mask_at_def by simp
  moreover have "int (u * 8 * k) + int (u * 8) = int (u * 8 * Suc k)" by simp
  ultimately have "scan_word (int u) k (int (u * 8 * k), ?on k) G s
      = Some (Inr (int (u * 8 * Suc k), ?on (Suc k)), s)"
    unfolding scan_word_def w by (simp only: prod.case bnd_app option.case sum.case ret_app)
  with Suc show ?case
    unfolding upt_Suc_append [OF le0] fold_comp_append by (simp add: bnd_app ret_app del: of_nat_mult)
qed

text \<open>
  C25: \<open>get_cpu_list\<close> returns the numbers of exactly the CPUs whose bit is set in the mask, in
  increasing order, for every size of the words of the mask.
\<close>

theorem get_cpu_list_exact:
  assumes "mask_at G u nr masks" and "0 < u"
  shows "get_cpu_list G s = Some (Inr (map int (filter (cpu_bit (u * 8) masks) [0..<u * 8 * nr])), s)"
proof -
  have "int (nr * u) div int u = int nr" using assms(2) by simp
  then have "scan_cpumask G s = Some (Inr (map int (filter (cpu_bit (u * 8) masks) [0..<u * 8 * nr])), s)"
    using assms scan_words [OF assms order_refl]
    unfolding mask_at_def
    by (simp add: scan_cpumask_def bnd_app idiv_def ret_app del: fold_comp.simps of_nat_mult)
  then show ?thesis by (simp add: get_cpu_list_def catch_app)
qed

text \<open>The CPUs found are below the next one.\<close>

definition cpus_below :: "int \<times> int list \<Rightarrow> bool" where
  "cpus_below = (\<lambda>(cpu, cpus). sorted_wrt (<) (- 1 # cpus) \<and> (\<forall>c \<in> set (- 1 # cpus). c < cpu))"

lemma mask_cpus_below:
  assumes "cpus_below (cpu, cpus)"
  shows "cpus_below (cpu + int n, cpus @ mask_cpus n m cpu)"
proof -
  have "sorted_wrt (<) (filter (bit m) [0..<n])" by (intro sorted_wrt_filter sorted_wrt_upt)
  then have "sorted_wrt (<) (mask_cpus n m cpu)"
    unfolding mask_cpus_bits by (simp add: sorted_wrt_map)
  moreover have "\<forall>c \<in> set (mask_cpus n m cpu). cpu \<le> c \<and> c < cpu + int n"
    unfolding mask_cpus_bits by auto
  ultimately show ?thesis
    using assms by (fastforce simp: cpus_below_def sorted_wrt_append)
qed

lemma yields_scan_word:
  assumes "cpus_below b"
  shows "yields cpus_below (scan_word u i b)"
proof -
  obtain cpu cpus where b: "b = (cpu, cpus)" by (cases b)
  have w: "max 0 (u * 8) = int (nat (u * 8))" by simp
  show ?thesis
    using assms unfolding scan_word_def w b prod.case
    by (intro yields_bnd_any yields_ret mask_cpus_below)
qed

lemma yields_scan_cpumask: "yields (\<lambda>cpus. sorted_wrt (<) (- 1 # cpus)) scan_cpumask"
proof -
  have "yields cpus_below (fold_comp (scan_word u) is (0, []))" for u "is"
    by (intro yields_fold_comp yields_scan_word) (simp add: cpus_below_def)
  moreover have "yields (\<lambda>cpus. sorted_wrt (<) (- 1 # cpus)) (case b of (_, cpus) \<Rightarrow> ret cpus)"
    if "cpus_below b" for b
    using that by (cases b) (simp add: yields_ret cpus_below_def)
  ultimately show ?thesis
    unfolding scan_cpumask_def
    by (rule_tac yields_bnd_any, rule_tac yields_bnd_any, rule_tac yields_bnd_any, rule_tac yields_bnd)
qed

text \<open>
  C36: Whatever the debugger answers, \<open>get_cpu_list\<close> returns, without an exception, a strictly
  increasing list of numbers that are not negative.
\<close>

theorem cpu_list_well_formed:
  "\<exists>cpus s'. get_cpu_list G s = Some (Inr cpus, s') \<and> sorted_wrt (<) (- 1 # cpus)"
proof -
  obtain r s1 where run: "scan_cpumask G s = Some (r, s1)" using returnsD [OF returns_scan_cpumask] by blast
  show ?thesis
  proof (cases r)
    case (Inl e)
    with run show ?thesis by (simp add: get_cpu_list_def catch_app andthen_app gdb_print_app ret_app)
  next
    case (Inr cpus)
    with run yieldsD [OF yields_scan_cpumask] show ?thesis by (simp add: get_cpu_list_def catch_app)
  qed
qed

section \<open>dumpltt without the modules\<close>

definition prepared :: "gdb \<Rightarrow> string \<Rightarrow> files \<Rightarrow> files" where
  "prepared G dir fs = system G (''rm -rf '' @ dir @ ''/dummy'')
     (system G (''rm -rf '' @ dir @ ''/channel*'') (system G (''mkdir -p '' @ dir) fs))"

lemma prepare_dumpdir_run: "prepare_dumpdir dir G s = Some (Inr (), s\<lparr>files := prepared G dir (files s)\<rparr>)"
  by (simp add: prepare_dumpdir_def prepared_def andthen_app os_system_def skip_app)

lemma load_missing_module:
  assumes "module_list G ms" and "map_of ms modname = None"
  shows "find_and_load_module symfile modname G s = Some (Inl (GdbError
    (''Unable to find lttng_tracer module, are you '' @ ''sure lttng is loaded in this kernel dump?'')), s)"
  unfolding find_and_load_module_def bnd_app find_module_run [OF assms(1)] assms(2)
  by (simp only: option.case prod.case sum.case raise_app)

text \<open>
  When the kernel has no module \<open>lttng_tracer\<close>, \<open>dumpltt\<close> cleans the directory of the dump, then
  stops with its message: it executes no command of gdb and prints nothing.
\<close>

theorem dumpltt_needs_tracer:
  assumes "argv_of G args = [lttdir, dir]" and "module_list G ms" and "map_of ms ''lttng_tracer'' = None"
  shows "invoke_dumpltt args G s = Some (Inl (GdbError (''Unable to find lttng_tracer module, are you ''
      @ ''sure lttng is loaded in this kernel dump?'')),
    s\<lparr>files := prepared G dir (files s)\<rparr>)"
  unfolding invoke_dumpltt_def bnd_app ask_app
  by (simp only: assms(1) option.case prod.case sum.case list.case block.simps andthen_app
      prepare_dumpdir_run load_missing_module [OF assms(2,3)])

section \<open>A small kernel\<close>

definition quoted :: "string \<Rightarrow> string" where
  "quoted x = ''0x1 '' @ [CHR 0x22] @ x @ [CHR 0x22]"

definition kernel_table :: "(string \<times> gval) list" where
  "kernel_table = [
     (''((int)&((struct module *)0).list)'', \<lparr>gnum = 8, gtext = ''8''\<rparr>),
     (''modules'', \<lparr>gnum = 1, gtext = ''1''\<rparr>),
     (''((struct list_head *) 1)->next'', \<lparr>gnum = 2, gtext = ''2''\<rparr>),
     (''((struct module *) (((char *) 2) - 8))'', \<lparr>gnum = 3, gtext = ''3''\<rparr>),
     (''(char *) ((struct module *) 3)->name'', \<lparr>gnum = 4, gtext = quoted ''ext4''\<rparr>),
     (''((struct list_head *) 2)->next'', \<lparr>gnum = 1, gtext = ''1''\<rparr>),
     (''&sessions'', \<lparr>gnum = 10, gtext = ''10''\<rparr>),
     (''sessions.next'', \<lparr>gnum = 11, gtext = ''11''\<rparr>),
     (''((int)&((struct lttng_session *)0).list)'', \<lparr>gnum = 8, gtext = ''8''\<rparr>),
     (''(void *) (((unsigned long) 11) - 8)'', \<lparr>gnum = 12, gtext = ''12''\<rparr>),
     (''((struct lttng_session *) 12)->active'', \<lparr>gnum = 1, gtext = ''1''\<rparr>),
     (''&(((struct lttng_session *) 12)->chan)'', \<lparr>gnum = 13, gtext = ''13''\<rparr>),
     (''((struct list_head *) 13)->next'', \<lparr>gnum = 14, gtext = ''14''\<rparr>),
     (''((int)&((struct lttng_channel *)0).list)'', \<lparr>gnum = 8, gtext = ''8''\<rparr>),
     (''(void *) (((unsigned long) 14) - 8)'', \<lparr>gnum = 15, gtext = ''15''\<rparr>),
     (''((struct lttng_channel *) 15)->enabled'', \<lparr>gnum = 1, gtext = ''1''\<rparr>),
     (''((struct lttng_channel *) 15)->channel_type'', \<lparr>gnum = 0, gtext = ''0''\<rparr>),
     (''&(((struct lttng_channel *) 15)->chan->backend)'', \<lparr>gnum = 16, gtext = ''16''\<rparr>),
     (''(char *) ((struct channel_backend *) 16)->name'', \<lparr>gnum = 17, gtext = quoted ''relay-overwrite-mmap''\<rparr>),
     (''sizeof(unsigned long)'', \<lparr>gnum = 1, gtext = ''1''\<rparr>),
     (''sizeof(__cpu_online_mask)'', \<lparr>gnum = 2, gtext = ''2''\<rparr>),
     (''__cpu_online_mask.bits[0]'', \<lparr>gnum = 5, gtext = ''5''\<rparr>),
     (''__cpu_online_mask.bits[1]'', \<lparr>gnum = 2, gtext = ''2''\<rparr>)]"

definition kernel_gdb :: gdb where
  "kernel_gdb = small_gdb\<lparr>eval := (\<lambda>_ x. case map_of kernel_table x of
     None \<Rightarrow> Inl GdbEvalError | Some v \<Rightarrow> Inr v)\<rparr>"

definition kernel_eval :: "string \<Rightarrow> gval option" where
  "kernel_eval x = map_of kernel_table x"

lemma kernel_gdb_eval: "kernel_eval x = Some v \<Longrightarrow> eval kernel_gdb h x = Inr v"
  by (simp add: kernel_gdb_def kernel_eval_def)

lemma kernel_modules: "module_list kernel_gdb [(''ext4'', ''((struct module *) 3)'')]"
proof -
  have "kernel_eval ''((int)&((struct module *)0).list)'' = Some \<lparr>gnum = 8, gtext = ''8''\<rparr>"
    and "kernel_eval ''modules'' = Some \<lparr>gnum = 1, gtext = ''1''\<rparr>"
    and "kernel_eval ''((struct list_head *) 1)->next'' = Some \<lparr>gnum = 2, gtext = ''2''\<rparr>"
    and "kernel_eval ''((struct module *) (((char *) 2) - 8))'' = Some \<lparr>gnum = 3, gtext = ''3''\<rparr>"
    and "kernel_eval ''(char *) ((struct module *) 3)->name'' = Some \<lparr>gnum = 4, gtext = quoted ''ext4''\<rparr>"
    and "kernel_eval ''((struct list_head *) 2)->next'' = Some \<lparr>gnum = 1, gtext = ''1''\<rparr>"
    by code_simp+
  note ev = this [THEN kernel_gdb_eval]
  have "index (split_on (CHR 0x22) (quoted ''ext4'')) 1 = Inr ''ext4''" by code_simp
  moreover have "address_as_ulong kernel_gdb v = v" for v by (simp add: kernel_gdb_def small_gdb_def)
  ultimately show ?thesis
    unfolding module_list_def
    by (rule_tac exI [of _ "\<lparr>gnum = 8, gtext = ''8''\<rparr>"], rule_tac exI [of _ "\<lparr>gnum = 1, gtext = ''1''\<rparr>"],
        rule_tac exI [of _ "\<lparr>gnum = 2, gtext = ''2''\<rparr>"])
      (simp add: ev next_of_def get_str_def comp_simps)
qed

theorem find_module_first_witness:
  "find_module ''ext4'' kernel_gdb empty_gst = Some (Inr (Some ''((struct module *) 3)''), empty_gst)
    \<and> find_module ''lttng_tracer'' kernel_gdb empty_gst = Some (Inr None, empty_gst)"
  using find_module_first [OF kernel_modules, of "''ext4''" empty_gst]
    find_module_first [OF kernel_modules, of "''lttng_tracer''" empty_gst]
  by simp

theorem dumpltt_needs_tracer_witness:
  "\<exists>s'. invoke_dumpltt ''lib out'' kernel_gdb empty_gst = Some (Inl (GdbError
    (''Unable to find lttng_tracer module, are you '' @ ''sure lttng is loaded in this kernel dump?'')), s')"
proof -
  have "words ''lib out'' = [''lib'', ''out'']" by code_simp
  then have "argv_of kernel_gdb ''lib out'' = [''lib'', ''out'']" by (simp add: kernel_gdb_def small_gdb_def)
  from dumpltt_needs_tracer [OF this kernel_modules] show ?thesis by simp
qed

theorem find_session_channel_sound_witness:
  "\<exists>s' head p. find_session_channel \<lparr>gnum = 0, gtext = []\<rparr> kernel_gdb empty_gst
      = Some (Inr (Some (''((struct lttng_session *) 12)'', ''((struct channel_backend *) 16)'')), s')
    \<and> s' = empty_gst
    \<and> first_fit kernel_gdb empty_gst head p (idle_session kernel_gdb empty_gst \<lparr>gnum = 0, gtext = []\<rparr>)
        (usable_session kernel_gdb empty_gst \<lparr>gnum = 0, gtext = []\<rparr>)
        (Some (''((struct lttng_session *) 12)'', ''((struct channel_backend *) 16)''))"
proof -
  have "map_option fst (find_session_channel \<lparr>gnum = 0, gtext = []\<rparr> kernel_gdb empty_gst)
      = Some (Inr (Some (''((struct lttng_session *) 12)'', ''((struct channel_backend *) 16)'')))"
    by code_simp
  then obtain s' where run: "find_session_channel \<lparr>gnum = 0, gtext = []\<rparr> kernel_gdb empty_gst
      = Some (Inr (Some (''((struct lttng_session *) 12)'', ''((struct channel_backend *) 16)'')), s')"
    by (auto simp: map_option_case split: option.splits)
  with find_session_channel_sound [OF run] show ?thesis by blast
qed

lemma kernel_mask: "mask_at kernel_gdb 1 2 (\<lambda>i. if i = 0 then 5 else 2)"
proof -
  have "kernel_eval ''sizeof(unsigned long)'' = Some \<lparr>gnum = 1, gtext = ''1''\<rparr>"
    and "kernel_eval ''sizeof(__cpu_online_mask)'' = Some \<lparr>gnum = 2, gtext = ''2''\<rparr>"
    and "kernel_eval (''__cpu_online_mask.bits['' @ str_of_int (int 0) @ '']'') = Some \<lparr>gnum = 5, gtext = ''5''\<rparr>"
    and "kernel_eval (''__cpu_online_mask.bits['' @ str_of_int (int 1) @ '']'') = Some \<lparr>gnum = 2, gtext = ''2''\<rparr>"
    by code_simp+
  note ev = this [THEN kernel_gdb_eval]
  have "eval_int (''__cpu_online_mask.bits['' @ str_of_int (int i) @ '']'') kernel_gdb s
      = Some (Inr (if i = 0 then 5 else 2), s)" if "i < 2" for i s
  proof -
    from that consider "i = 0" | "i = 1" by fastforce
    then show ?thesis using ev(3,4) by cases (simp_all only: eval_int_app map_sum.simps gval.simps, simp_all)
  qed
  with ev(1,2) show ?thesis by (simp add: mask_at_def eval_int_app)
qed

theorem get_cpu_list_exact_witness:
  "get_cpu_list kernel_gdb empty_gst = Some (Inr [0, 2, 9], empty_gst)"
proof -
  have "filter (cpu_bit 8 (\<lambda>i. if i = 0 then 5 else 2)) [0..<16] = [0, 2, 9]" by code_simp
  then show ?thesis using get_cpu_list_exact [OF kernel_mask, of empty_gst] by simp
qed

end
