(* ===== verification/Lsmod.thy ===== *)
theory Lsmod
  imports LttPages
begin

text \<open>
  The command \<open>lsmod\<close> of \<open>gdbinit.py\<close>: it walks the list of modules of a kernel dump, translates
  each address with \<open>kvtop\<close>, and prints a line for each module.
\<close>

section \<open>Formats\<close>

text \<open>\<open>%lx\<close>, \<open>%20s\<close>\<close>

definition hex_digit :: "nat \<Rightarrow> char" where
  "hex_digit n = ''0123456789abcdef'' ! (n mod 16)"

fun hex_of_nat :: "nat \<Rightarrow> string" where
  "hex_of_nat n = (if n < 16 then [hex_digit n] else hex_of_nat (n div 16) @ [hex_digit n])"

declare hex_of_nat.simps [simp del]

definition hex_of_int :: "int \<Rightarrow> string" where
  "hex_of_int n = (if n < 0 then CHR ''-'' # hex_of_nat (nat (- n)) else hex_of_nat (nat n))"

definition pad_left :: "nat \<Rightarrow> string \<Rightarrow> string" where
  "pad_left w x = replicate (w - length x) CHR '' '' @ x"

section \<open>invoke\<close>

definition module_line :: "string \<Rightarrow> int \<Rightarrow> int \<Rightarrow> int \<Rightarrow> string" where
  "module_line name virt phys core_size =
     pad_left 20 name @ [TAB] @ '' virt 0x'' @ hex_of_int virt @ [TAB] @ '' phys 0x'' @ hex_of_int phys
     @ [TAB] @ '' core_size '' @ str_of_int core_size @ '' ''"

definition module_field :: "int \<Rightarrow> string \<Rightarrow> string" where
  "module_field phys field = ''(*(struct module*)(0x'' @ hex_of_int phys @ '')).'' @ field"

definition next_module :: "int \<Rightarrow> string" where
  "next_module phys = ''((struct module*)0x'' @ hex_of_int phys @ '').list.next''"

text \<open>The two \<open>try\<close> blocks: their exceptions leave the loop.\<close>

definition print_module :: "gval \<Rightarrow> int \<Rightarrow> int \<Rightarrow> gval \<Rightarrow> bool dbg" where
  "print_module modname virt phys core_size =
     catch (bnd (ask (\<lambda>G. string_of G modname)) (\<lambda>r.
            bnd (lift_res r) (\<lambda>name.
            andthen (gdb_print (module_line name virt phys (gnum core_size))) (ret True))))
       (\<lambda>_. ret False)"

definition step_module :: "int \<Rightarrow> int option dbg" where
  "step_module phys =
     catch (bnd (eval_int (next_module phys)) (\<lambda>n. ret (Some n))) (\<lambda>_. ret None)"

definition lsmod_round :: "int \<Rightarrow> int \<Rightarrow> (int + unit) dbg" where
  "lsmod_round modules modules_next =
     (if modules_next = modules then ret (Inr ())
      else
        bnd (gdb_execute (Kvtop modules_next)) (\<lambda>_.
        bnd (eval_int ''(ulong)$ret'') (\<lambda>r.
        let modules_next_phys = r - 4 in
        bnd (parse_and_eval (module_field modules_next_phys ''name'')) (\<lambda>modname.
        bnd (parse_and_eval (module_field modules_next_phys ''core_size'')) (\<lambda>core_size.
        bnd (print_module modname modules_next modules_next_phys core_size) (\<lambda>printed.
        if \<not> printed then ret (Inr ())
        else bnd (step_module modules_next_phys) (\<lambda>next. case next of
            None \<Rightarrow> ret (Inr ())
          | Some n \<Rightarrow> ret (Inl n))))))))"

definition invoke_lsmod :: "string \<Rightarrow> unit dbg" where
  "invoke_lsmod args =
     bnd (ask (\<lambda>G. argv_of G args)) (\<lambda>argv.
     bnd (eval_int ''&modules'') (\<lambda>modules.
     bnd (eval_int ''modules.next'') (\<lambda>modules_next.
     iterate (lsmod_round modules) modules_next)))"

section \<open>What it prints\<close>

text \<open>A module: the address of its list entry, its translated address, its name and size.\<close>

record kmod =
  virt :: int
  phys :: int
  kname :: string
  ksize :: int

definition module_at :: "gdb \<Rightarrow> kmod \<Rightarrow> bool" where
  "module_at G m \<longleftrightarrow>
     (\<forall>h fs. \<exists>out. execute G h (Kvtop (virt m)) fs = Inr (out, fs))
     \<and> (\<forall>h. \<exists>r. eval G (h @ [Kvtop (virt m)]) ''(ulong)$ret'' = Inr r \<and> gnum r - 4 = phys m)
     \<and> (\<forall>h. \<exists>v. eval G h (module_field (phys m) ''name'') = Inr v \<and> string_of G v = Inr (kname m))
     \<and> (\<forall>h. \<exists>v. eval G h (module_field (phys m) ''core_size'') = Inr v \<and> gnum v = ksize m)"

text \<open>
  The modules from an address on: up to the head of the list, or to the first module whose link
  cannot be read.
\<close>

fun modules_from_virt :: "gdb \<Rightarrow> int \<Rightarrow> int \<Rightarrow> kmod list \<Rightarrow> bool" where
  "modules_from_virt G head p [] \<longleftrightarrow> p = head"
| "modules_from_virt G head p (m # ms) \<longleftrightarrow> p \<noteq> head \<and> virt m = p \<and> module_at G m
     \<and> ((\<exists>v. (\<forall>h. eval G h (next_module (phys m)) = Inr v) \<and> modules_from_virt G head (gnum v) ms)
        \<or> (\<forall>h. \<exists>e. eval G h (next_module (phys m)) = Inl e) \<and> ms = [])"

definition kmod_line :: "kmod \<Rightarrow> string" where
  "kmod_line m = module_line (kname m) (virt m) (phys m) (ksize m)"

definition listed :: "kmod list \<Rightarrow> gst \<Rightarrow> gst" where
  "listed ms s = s\<lparr>commands := commands s @ map (\<lambda>m. Kvtop (virt m)) ms,
     printed := printed s @ map kmod_line ms\<rparr>"

lemma step_module_run:
  "step_module p G s = Some (Inr (case eval G (commands s) (next_module p) of Inl e \<Rightarrow> None | Inr v \<Rightarrow> Some (gnum v)), s)"
  by (simp add: step_module_def catch_app bnd_app eval_int_app ret_app split: sum.split)

lemma lsmod_round_run:
  assumes "module_at G m" and "virt m \<noteq> head"
  shows "lsmod_round head (virt m) G s
    = Some (Inr (case eval G (commands s @ [Kvtop (virt m)]) (next_module (phys m)) of
        Inl e \<Rightarrow> Inr () | Inr v \<Rightarrow> Inl (gnum v)), listed [m] s)"
proof -
  let ?h = "commands s @ [Kvtop (virt m)]" and ?s = "s\<lparr>commands := commands s @ [Kvtop (virt m)]\<rparr>"
  obtain r name size out where ev: "eval G ?h ''(ulong)$ret'' = Inr r" "gnum r - 4 = phys m"
      "eval G ?h (module_field (phys m) ''name'') = Inr name" "string_of G name = Inr (kname m)"
      "eval G ?h (module_field (phys m) ''core_size'') = Inr size" "gnum size = ksize m"
    and ex: "execute G (commands s) (Kvtop (virt m)) (files s) = Inr (out, files s)"
    using assms(1) unfolding module_at_def by meson
  have e: "gdb_execute (Kvtop (virt m)) G s = Some (Inr out, ?s)"
    using ex by (simp add: gdb_execute_def)
  have p: "print_module name (virt m) (phys m) size G ?s = Some (Inr True, listed [m] s)"
    using ev(4,6) by (simp add: print_module_def catch_app bnd_app andthen_app ask_app lift_res_app
        gdb_print_app ret_app listed_def kmod_line_def)
  have c: "commands (listed [m] s) = ?h" by (simp add: listed_def)
  show ?thesis
    using assms(2) ev(1-3,5) e p c
    by (simp add: lsmod_round_def bnd_app eval_int_app parse_and_eval_app step_module_run ret_app Let_def
        split: sum.split)
qed

lemma lsmod_loop:
  assumes "modules_from_virt G head p ms"
  shows "iterate (lsmod_round head) p G s = Some (Inr (), listed ms s)"
  using assms
proof (induction ms arbitrary: p s)
  case Nil
  then show ?case by (intro iterate_leave) (simp add: lsmod_round_def ret_app listed_def)
next
  case (Cons m ms)
  then have m: "module_at G m" "virt m \<noteq> head" "p = virt m" by auto
  note step = lsmod_round_run [OF m(1,2), of s]
  from Cons.prems consider
    (more) v where "\<forall>h. eval G h (next_module (phys m)) = Inr v" and "modules_from_virt G head (gnum v) ms"
    | (unreadable) "\<forall>h. \<exists>e. eval G h (next_module (phys m)) = Inl e" and "ms = []"
    by auto
  then show ?case
  proof cases
    case more
    with step have "lsmod_round head p G s = Some (Inr (Inl (gnum v)), listed [m] s)" by (simp add: m(3))
    then have "iterate (lsmod_round head) p G s = iterate (lsmod_round head) (gnum v) G (listed [m] s)"
      by (rule iterate_again)
    with Cons.IH [OF more(2), of "listed [m] s"] show ?thesis by (simp add: listed_def)
  next
    case unreadable
    then obtain e where "eval G (commands s @ [Kvtop (virt m)]) (next_module (phys m)) = Inl e" by blast
    with step have "lsmod_round head p G s = Some (Inr (Inr ()), listed [m] s)" by (simp add: m(3))
    then show ?thesis unfolding unreadable(2) by (rule iterate_leave)
  qed
qed

text \<open>
  C26: \<open>lsmod\<close> prints exactly one line for each module, in the order of the list, with its
  translated address, and executes \<open>kvtop\<close> once for each; an unreadable link ends the list there,
  without an error.
\<close>

theorem lsmod_lists_modules:
  assumes "\<forall>h. \<exists>v. eval G h ''&modules'' = Inr v \<and> gnum v = head"
    and "\<forall>h. \<exists>v. eval G h ''modules.next'' = Inr v \<and> gnum v = first"
    and "modules_from_virt G head first ms"
  shows "invoke_lsmod args G s = Some (Inr (), listed ms s)"
proof -
  obtain a b where "eval G (commands s) ''&modules'' = Inr a" "gnum a = head"
    "eval G (commands s) ''modules.next'' = Inr b" "gnum b = first"
    using assms(1,2) by meson
  then show ?thesis
    by (simp add: invoke_lsmod_def bnd_app ask_app eval_int_app lsmod_loop [OF assms(3)])
qed

section \<open>A small dump\<close>

definition dump_table :: "(string \<times> gval) list" where
  "dump_table = [
     (''&modules'', \<lparr>gnum = 16, gtext = []\<rparr>),
     (''modules.next'', \<lparr>gnum = 48, gtext = []\<rparr>),
     (''(*(struct module*)(0x20)).name'', \<lparr>gnum = 0, gtext = ''ext4''\<rparr>),
     (''(*(struct module*)(0x20)).core_size'', \<lparr>gnum = 96, gtext = []\<rparr>),
     (''((struct module*)0x20).list.next'', \<lparr>gnum = 80, gtext = []\<rparr>),
     (''(*(struct module*)(0x40)).name'', \<lparr>gnum = 0, gtext = ''lttng''\<rparr>),
     (''(*(struct module*)(0x40)).core_size'', \<lparr>gnum = 32, gtext = []\<rparr>)]"

definition dump_eval :: "gcmd list \<Rightarrow> string \<Rightarrow> exn + gval" where
  "dump_eval h x = (if x = ''(ulong)$ret'' then
       (case last h of Kvtop v \<Rightarrow> Inr \<lparr>gnum = v - 12, gtext = []\<rparr> | _ \<Rightarrow> Inl GdbEvalError)
     else case map_of dump_table x of None \<Rightarrow> Inl GdbEvalError | Some v \<Rightarrow> Inr v)"

definition dump_gdb :: gdb where
  "dump_gdb = small_gdb\<lparr>eval := dump_eval\<rparr>"

definition dump_lookup :: "string \<Rightarrow> gval option" where
  "dump_lookup x = (if x = ''(ulong)$ret'' then None else map_of dump_table x)"

lemma dump_gdb_eval: "dump_lookup x = Some v \<Longrightarrow> eval dump_gdb h x = Inr v"
  by (simp add: dump_gdb_def dump_eval_def dump_lookup_def split: if_splits)

lemma dump_module_at:
  assumes "dump_lookup (module_field (phys m) ''name'') = Some \<lparr>gnum = 0, gtext = kname m\<rparr>"
    and "dump_lookup (module_field (phys m) ''core_size'') = Some \<lparr>gnum = ksize m, gtext = []\<rparr>"
    and "virt m = phys m + 16"
  shows "module_at dump_gdb m"
proof -
  have "\<exists>out. execute dump_gdb h (Kvtop (virt m)) fs = Inr (out, fs)" for h fs
    by (simp add: dump_gdb_def small_gdb_def)
  moreover have "eval dump_gdb (h @ [Kvtop (virt m)]) ''(ulong)$ret'' = Inr \<lparr>gnum = virt m - 12, gtext = []\<rparr>" for h
    by (simp add: dump_gdb_def dump_eval_def)
  moreover have "string_of dump_gdb v = Inr (gtext v)" for v
    by (simp add: dump_gdb_def small_gdb_def)
  ultimately show ?thesis
    using assms(3) by (simp add: module_at_def dump_gdb_eval [OF assms(1)] dump_gdb_eval [OF assms(2)])
qed

theorem lsmod_lists_modules_witness:
  "\<exists>s'. invoke_lsmod [] dump_gdb empty_gst = Some (Inr (), s')
    \<and> commands s' = [Kvtop 48, Kvtop 80]
    \<and> printed s' = [
        ''                ext4'' @ [TAB] @ '' virt 0x30'' @ [TAB] @ '' phys 0x20'' @ [TAB] @ '' core_size 96 '',
        ''               lttng'' @ [TAB] @ '' virt 0x50'' @ [TAB] @ '' phys 0x40'' @ [TAB] @ '' core_size 32 '']"
proof -
  let ?m1 = "\<lparr>virt = 48, phys = 32, kname = ''ext4'', ksize = 96\<rparr>"
  let ?m2 = "\<lparr>virt = 80, phys = 64, kname = ''lttng'', ksize = 32\<rparr>"
  have f1: "dump_lookup (module_field (phys ?m1) ''name'') = Some \<lparr>gnum = 0, gtext = kname ?m1\<rparr>"
    "dump_lookup (module_field (phys ?m1) ''core_size'') = Some \<lparr>gnum = ksize ?m1, gtext = []\<rparr>"
    by code_simp+
  have f2: "dump_lookup (module_field (phys ?m2) ''name'') = Some \<lparr>gnum = 0, gtext = kname ?m2\<rparr>"
    "dump_lookup (module_field (phys ?m2) ''core_size'') = Some \<lparr>gnum = ksize ?m2, gtext = []\<rparr>"
    by code_simp+
  have at1: "module_at dump_gdb ?m1" by (rule dump_module_at [OF f1]) simp
  have at2: "module_at dump_gdb ?m2" by (rule dump_module_at [OF f2]) simp
  have n1: "dump_lookup (next_module 32) = Some \<lparr>gnum = 80, gtext = []\<rparr>" by code_simp
  have "map_of dump_table (next_module 64) = None" and "next_module 64 \<noteq> ''(ulong)$ret''" by code_simp+
  then have n2: "eval dump_gdb h (next_module 64) = Inl GdbEvalError" for h
    by (simp add: dump_gdb_def dump_eval_def)
  have h: "dump_lookup ''&modules'' = Some \<lparr>gnum = 16, gtext = []\<rparr>"
    "dump_lookup ''modules.next'' = Some \<lparr>gnum = 48, gtext = []\<rparr>" by code_simp+
  have chain: "modules_from_virt dump_gdb 16 48 [?m1, ?m2]"
    using at1 at2 n2 dump_gdb_eval [OF n1] by simp
  have e1: "\<forall>h. \<exists>v. eval dump_gdb h ''&modules'' = Inr v \<and> gnum v = 16" using dump_gdb_eval [OF h(1)] by simp
  have e2: "\<forall>h. \<exists>v. eval dump_gdb h ''modules.next'' = Inr v \<and> gnum v = 48" using dump_gdb_eval [OF h(2)] by simp
  have "kmod_line ?m1 = ''                ext4'' @ [TAB] @ '' virt 0x30'' @ [TAB] @ '' phys 0x20'' @ [TAB] @ '' core_size 96 ''"
    and "kmod_line ?m2 = ''               lttng'' @ [TAB] @ '' virt 0x50'' @ [TAB] @ '' phys 0x40'' @ [TAB] @ '' core_size 32 ''"
    by code_simp+
  then show ?thesis
    using lsmod_lists_modules [OF e1 e2 chain, of "[]" empty_gst] by (simp add: listed_def empty_gst_def)
qed

end
