(* ===== verification/KernelConfig.thy ===== *)
theory KernelConfig
  imports PyText
begin

text \<open>
  The Python of \<open>mvl.bbclass\<close> that puts settings of the build into the configuration of the kernel:
  \<open>get_kernel_config_env\<close> and \<open>do_kernel_postconfigure\<close>. The data store of BitBake is a parameter:
  its keys and the value \<open>getVar\<close> gives for a variable.
\<close>

record datastore =
  var_names :: "string list"
  get_var :: "string \<Rightarrow> string option"

section \<open>The settings of the build\<close>

text \<open>\<open>d.getVar(v).split()\<close> and \<open>len(d.getVar(v))\<close>; both raise when the variable is not set.\<close>

definition var_words :: "datastore \<Rightarrow> string \<Rightarrow> exn + string list" where
  "var_words d v = (case get_var d v of
     None \<Rightarrow> Inl (OtherException ''AttributeError'') | Some x \<Rightarrow> Inr (words x))"

definition var_text :: "datastore \<Rightarrow> string \<Rightarrow> exn + string" where
  "var_text d v = (case get_var d v of None \<Rightarrow> Inl TypeError | Some x \<Rightarrow> Inr x)"

text \<open>The variables that carry a setting, with the prefix they have in the data store\<close>

definition selected_vars :: "datastore \<Rightarrow> exn + string \<times> string list" where
  "selected_vars d =
     rbind (var_text d ''PRECONFIGURE_PREFIX'') (\<lambda>pre.
     rbind (var_words d ''PRECONFIGURE_IGNORE'') (\<lambda>ignore.
     Inr (pre, filter (\<lambda>v. startswith v (pre @ ''CONFIG_'') \<and> v \<notin> set ignore) (var_names d))))"

fun with_values :: "datastore \<Rightarrow> string list \<Rightarrow> exn + string list" where
  "with_values d [] = Inr []"
| "with_values d (v # vs) =
     rbind (var_text d v) (\<lambda>x. rbind (with_values d vs) (\<lambda>ys. Inr ((v @ ''='' @ x) # ys)))"

definition get_kernel_config_env :: "datastore \<Rightarrow> exn + string" where
  "get_kernel_config_env d =
     rbind (selected_vars d) (\<lambda>(pre, vs).
     rbind (with_values d vs) (\<lambda>new_var. Inr (join '' '' (sort new_var))))"

type_synonym settings = "(string \<times> string option) list"

definition get_kernel_config_vars :: "datastore \<Rightarrow> exn + settings" where
  "get_kernel_config_vars d =
     rbind (selected_vars d) (\<lambda>(pre, vs). Inr (map (\<lambda>v. (drop (length pre) v, get_var d v)) vs))"

section \<open>The lines of a configuration\<close>

text \<open>\<open>$\<close> matches at the end and before a last newline.\<close>

definition at_end :: "string \<Rightarrow> bool" where
  "at_end s \<longleftrightarrow> s = [] \<or> s = [NL]"

text \<open>\<open>re.match(r'y$|m$|["0-9]', val)\<close>\<close>

definition plain_value :: "string \<Rightarrow> bool" where
  "plain_value val = (case val of [] \<Rightarrow> False
     | c # r \<Rightarrow> (c = CHR ''y'' \<or> c = CHR ''m'') \<and> at_end r \<or> c = CHR 0x22 \<or> is_digit c)"

definition shown_value :: "string \<Rightarrow> string" where
  "shown_value val = (if plain_value val then val else [CHR 0x22] @ val @ [CHR 0x22])"

definition config_line :: "string \<Rightarrow> string option \<Rightarrow> exn + string" where
  "config_line var v = (case v of
     None \<Rightarrow> Inl TypeError
   | Some val \<Rightarrow> Inr (if val = ''n'' then ''# '' @ var @ '' is not set'' else var @ ''='' @ shown_value val))"

text \<open>\<open>CONFIG_[A-Z0-9_]+\<close> at the start of a text: the variable and what follows it\<close>

definition config_char :: "char \<Rightarrow> bool" where
  "config_char c \<longleftrightarrow> (let n = (of_char c :: nat) in (65 \<le> n \<and> n \<le> 90) \<or> is_digit c \<or> c = CHR ''_'')"

definition scan_var :: "string \<Rightarrow> (string \<times> string) option" where
  "scan_var s =
     (if startswith s ''CONFIG_'' then
        let w = takeWhile config_char (drop 7 s) in
        if w = [] then None else Some (''CONFIG_'' @ w, dropWhile config_char (drop 7 s))
      else None)"

text \<open>The expressions \<open>re_var_value\<close> and \<open>re_commented_var\<close>\<close>

definition var_value :: "string \<Rightarrow> string option" where
  "var_value line = (case scan_var line of
     Some (v, c # _) \<Rightarrow> if c = CHR ''='' then Some v else None | _ \<Rightarrow> None)"

definition commented_var :: "string \<Rightarrow> string option" where
  "commented_var line =
     (if startswith line ''# '' then (case scan_var (drop 2 line) of
        Some (v, rest) \<Rightarrow> if startswith rest '' is not set'' \<and> at_end (drop 11 rest) then Some v else None
      | None \<Rightarrow> None)
      else None)"

definition line_var :: "string \<Rightarrow> string option" where
  "line_var line = (case var_value line of Some v \<Rightarrow> Some v | None \<Rightarrow> commented_var line)"

section \<open>copy\_config\<close>

text \<open>The variables left are added at the end.\<close>

fun added_lines :: "settings \<Rightarrow> exn + string list" where
  "added_lines [] = Inr []"
| "added_lines ((var, v) # new) =
     rbind (config_line var v) (\<lambda>l. rbind (added_lines new) (\<lambda>ls. Inr (l # ls)))"

fun copy_lines :: "settings \<Rightarrow> string list \<Rightarrow> exn + string list" where
  "copy_lines new [] = added_lines new"
| "copy_lines new (l # ls) = (case line_var l of
     Some var \<Rightarrow> (case map_of new var of
         Some v \<Rightarrow> rbind (config_line var v) (\<lambda>l'.
           rbind (copy_lines (filter (\<lambda>(w, _). w \<noteq> var) new) ls) (\<lambda>ls'. Inr (l' # ls')))
       | None \<Rightarrow> rbind (copy_lines new ls) (\<lambda>ls'. Inr (l # ls')))
   | None \<Rightarrow> rbind (copy_lines new ls) (\<lambda>ls'. Inr (l # ls')))"

definition rstrip_nl :: "string \<Rightarrow> string" where
  "rstrip_nl l = rev (dropWhile (\<lambda>c. c = NL) (rev l))"

definition copy_config :: "string \<Rightarrow> settings \<Rightarrow> exn + string" where
  "copy_config text new =
     rbind (copy_lines new (map rstrip_nl (file_lines text))) (\<lambda>ls. Inr (concat (map (\<lambda>l. l @ [NL]) ls)))"

text \<open>\<open>os.path.join(a, b)\<close>\<close>

definition path_join :: "string \<Rightarrow> string \<Rightarrow> string" where
  "path_join a b = (if startswith b ''/'' then b
     else if a = [] \<or> last a = CHR ''/'' then a @ b else a @ ''/'' @ b)"

text \<open>
  The task, for a recipe that inherits the class \<open>kernel\<close> or not, over the files of the build;
  \<open>reconfigure\<close> is the shell function \<open>kernel_reconfigure\<close>. The temporary file that \<open>copy_config\<close>
  renames onto the configuration, and leaves behind when it raises, is not among the files: its name
  is chosen by \<open>mkstemp\<close>.
\<close>

definition do_kernel_postconfigure :: "bool \<Rightarrow> datastore \<Rightarrow> (string \<Rightarrow> string option)
    \<Rightarrow> ((string \<Rightarrow> string option) \<Rightarrow> (string \<Rightarrow> string option)) \<Rightarrow> (exn + unit) \<times> (string \<Rightarrow> string option)" where
  "do_kernel_postconfigure is_kernel d fs reconfigure =
     (if \<not> is_kernel then (Inr (), fs)
      else case get_kernel_config_vars d of
        Inl e \<Rightarrow> (Inl e, fs)
      | Inr new_vars \<Rightarrow>
          if new_vars = [] then (Inr (), fs)
          else case get_var d ''B'' of
            None \<Rightarrow> (Inl TypeError, fs)
          | Some builddir \<Rightarrow>
              let config = path_join builddir ''.config'' in
              case fs config of
                None \<Rightarrow> (Inr (), fs)
              | Some text \<Rightarrow>
                  let fs1 = fs(config @ ''.mvsave'' \<mapsto> text) in
                  case copy_config text new_vars of
                    Inl e \<Rightarrow> (Inl e, fs1)
                  | Inr new \<Rightarrow> (Inr (), reconfigure (fs1(config \<mapsto> new))))"

section \<open>What a configuration says\<close>

text \<open>
  A line sets its variable to a text, or unsets it; of two lines for one variable the last counts.
\<close>

definition setting :: "string \<Rightarrow> (string \<times> string option) option" where
  "setting line = (case var_value line of
     Some v \<Rightarrow> Some (v, Some (drop (length v + 1) line))
   | None \<Rightarrow> map_option (\<lambda>v. (v, None)) (commented_var line))"

fun config_of :: "string list \<Rightarrow> string \<Rightarrow> string option option" where
  "config_of [] = Map.empty"
| "config_of (l # ls) = (case setting l of
     None \<Rightarrow> config_of ls | Some (v, x) \<Rightarrow> [v \<mapsto> x] ++ config_of ls)"

definition text_lines :: "string \<Rightarrow> string list" where
  "text_lines text = map rstrip_nl (file_lines text)"

definition new_setting :: "string \<Rightarrow> string option" where
  "new_setting val = (if val = ''n'' then None else Some (shown_value val))"

definition new_map :: "settings \<Rightarrow> string \<Rightarrow> string option option" where
  "new_map new v = (case map_of new v of Some (Some x) \<Rightarrow> Some (new_setting x) | _ \<Rightarrow> None)"

definition valid_name :: "string \<Rightarrow> bool" where
  "valid_name v \<longleftrightarrow> startswith v ''CONFIG_'' \<and> drop 7 v \<noteq> [] \<and> list_all config_char (drop 7 v)"

definition one_line :: "string option \<Rightarrow> bool" where
  "one_line y \<longleftrightarrow> (case y of None \<Rightarrow> True | Some t \<Rightarrow> NL \<notin> set t)"

definition good_settings :: "settings \<Rightarrow> bool" where
  "good_settings new \<longleftrightarrow> distinct (map fst new)
     \<and> (\<forall>(v, x) \<in> set new. valid_name v \<and> one_line x)"

lemma line_var_setting: "line_var l = map_option fst (setting l)"
  by (cases "var_value l"; cases "commented_var l") (simp_all add: line_var_def setting_def)

lemma scan_var_valid:
  assumes "valid_name v" and "rest = [] \<or> \<not> config_char (hd rest)"
  shows "scan_var (v @ rest) = Some (v, rest)"
proof -
  obtain w where v: "v = ''CONFIG_'' @ w" and w: "w \<noteq> []" "list_all config_char w"
    using assms(1) by (auto simp: valid_name_def startswith_iff_prefix prefix_def)
  have "takeWhile config_char (w @ rest) = w" and "dropWhile config_char (w @ rest) = rest"
    using w(2) assms(2) by (cases rest; auto simp: list_all_iff takeWhile_append dropWhile_append)+
  then show ?thesis using w(1) unfolding v by (simp add: scan_var_def)
qed

lemma setting_config_line:
  assumes "valid_name v" and "config_line v (Some x) = Inr l"
  shows "setting l = Some (v, new_setting x)"
proof (cases "x = ''n''")
  case True
  have "scan_var (v @ '' is not set'') = Some (v, '' is not set'')"
    by (rule scan_var_valid [OF assms(1)]) (simp add: config_char_def is_digit_def)
  moreover have l: "l = ''# '' @ v @ '' is not set''" using assms(2) True by (simp add: config_line_def)
  ultimately have "commented_var l = Some v" by (simp add: commented_var_def at_end_def)
  moreover have "var_value l = None" by (simp add: l var_value_def scan_var_def)
  ultimately show ?thesis using True by (simp add: setting_def new_setting_def)
next
  case False
  have "scan_var (v @ CHR ''='' # shown_value x) = Some (v, CHR ''='' # shown_value x)"
    by (rule scan_var_valid [OF assms(1)]) (simp add: config_char_def is_digit_def)
  then show ?thesis
    using assms(2) False by (auto simp: config_line_def setting_def var_value_def new_setting_def)
qed

lemma config_line_InrE:
  assumes "config_line v y = Inr l"
  obtains x where "y = Some x"
  using assms by (auto simp: config_line_def split: option.splits)

lemma good_settings_Cons:
  "good_settings ((v, x) # new) \<longleftrightarrow> v \<notin> fst ` set new \<and> valid_name v
     \<and> one_line x \<and> good_settings new"
  by (auto simp: good_settings_def)

lemma good_settings_filter: "good_settings new \<Longrightarrow> good_settings (filter P new)"
  by (auto simp: good_settings_def distinct_map_filter)

lemma good_settingsD:
  "good_settings new \<Longrightarrow> map_of new v = Some x \<Longrightarrow>
     valid_name v \<and> one_line x"
  unfolding good_settings_def by (drule map_of_SomeD) auto

lemma map_of_without:
  "map_of (filter (\<lambda>(w, _). w \<noteq> v) new) w = (if w = v then None else map_of new w)"
  by (induction new) auto

lemma config_of_added:
  assumes "good_settings new" and "added_lines new = Inr out"
  shows "config_of out = new_map new"
  using assms
proof (induction new arbitrary: out)
  case Nil
  then show ?case by (auto simp: new_map_def)
next
  case (Cons p new)
  obtain v y where p: "p = (v, y)" by (cases p)
  from Cons.prems obtain l ls where l: "config_line v y = Inr l" and ls: "added_lines new = Inr ls"
    and out: "out = l # ls" by (auto simp: p rbind_Inr_iff)
  from l obtain x where y: "y = Some x" by (rule config_line_InrE)
  have g: "good_settings new" "v \<notin> fst ` set new" "valid_name v"
    using Cons.prems(1) by (simp_all add: p good_settings_Cons)
  have none: "map_of new v = None" using g(2) by (simp add: map_of_eq_None_iff)
  show ?case
    using Cons.IH [OF g(1) ls] setting_config_line [OF g(3) l [unfolded y]] none
    by (auto simp: out p y new_map_def map_add_def fun_eq_iff split: option.splits)
qed

lemma config_of_absent: "Some v \<notin> line_var ` set ls \<Longrightarrow> config_of ls v = None"
  by (induction ls) (force simp: line_var_setting map_add_def split: option.splits)+

text \<open>No variable has two lines.\<close>

fun once :: "string list \<Rightarrow> bool" where
  "once [] \<longleftrightarrow> True"
| "once (l # ls) \<longleftrightarrow> (line_var l = None \<or> line_var l \<notin> line_var ` set ls) \<and> once ls"

lemma config_of_copy:
  assumes "good_settings new" and "once ls" and "copy_lines new ls = Inr out"
  shows "config_of out = config_of ls ++ new_map new"
  using assms
proof (induction ls arbitrary: new out)
  case Nil
  then show ?case using config_of_added by simp
next
  case (Cons l ls)
  show ?case
  proof (cases "\<exists>v y. line_var l = Some v \<and> map_of new v = Some y")
    case True
    then obtain v y where v: "line_var l = Some v" "map_of new v = Some y" by blast
    let ?rest = "filter (\<lambda>(w, _). w \<noteq> v) new"
    from Cons.prems(3) v obtain l' out' where l': "config_line v y = Inr l'"
      and out': "copy_lines ?rest ls = Inr out'" and out: "out = l' # out'"
      by (auto simp: rbind_Inr_iff)
    from l' obtain x where y: "y = Some x" by (rule config_line_InrE)
    have s': "setting l' = Some (v, new_setting x)"
      using good_settingsD [OF Cons.prems(1) v(2)] l' y by (auto intro: setting_config_line)
    obtain z where s: "setting l = Some (v, z)" using v(1) by (auto simp: line_var_setting)
    have absent: "config_of ls v = None" using Cons.prems(2) v(1) by (intro config_of_absent) auto
    have "config_of out' = config_of ls ++ new_map ?rest"
      using Cons.IH [OF good_settings_filter [OF Cons.prems(1)] _ out'] Cons.prems(2) by simp
    then show ?thesis
      using s s' absent v(2)
      by (auto simp: out y new_map_def map_of_without map_add_def fun_eq_iff split: option.splits)
  next
    case False
    then obtain out' where out': "copy_lines new ls = Inr out'" and out: "out = l # out'"
      using Cons.prems(3) by (auto simp: rbind_Inr_iff split: option.splits)
    have "config_of out' = config_of ls ++ new_map new"
      using Cons.IH [OF Cons.prems(1) _ out'] Cons.prems(2) by simp
    then show ?thesis by (auto simp: out split: option.split)
  qed
qed

lemma copy_added:
  assumes "good_settings new" and "added_lines new = Inr out"
  shows "copy_lines new out = Inr out"
  using assms
proof (induction new arbitrary: out)
  case Nil
  then show ?case by simp
next
  case (Cons p new)
  obtain v y where p: "p = (v, y)" by (cases p)
  from Cons.prems obtain l ls where l: "config_line v y = Inr l" and ls: "added_lines new = Inr ls"
    and out: "out = l # ls" by (auto simp: p rbind_Inr_iff)
  from l obtain x where y: "y = Some x" by (rule config_line_InrE)
  have g: "good_settings new" "v \<notin> fst ` set new" "valid_name v"
    using Cons.prems(1) by (simp_all add: p good_settings_Cons)
  have "line_var l = Some v" using setting_config_line [OF g(3) l [unfolded y]] by (simp add: line_var_setting)
  moreover have "filter (\<lambda>(w, _). w \<noteq> v) new = new" using g(2) by (force simp: filter_id_conv)
  ultimately show ?case using Cons.IH [OF g(1) ls] l by (simp add: out p)
qed

lemma copy_copied:
  assumes "good_settings new" and "copy_lines new ls = Inr out"
  shows "copy_lines new out = Inr out"
  using assms
proof (induction ls arbitrary: new out)
  case Nil
  then show ?case using copy_added by simp
next
  case (Cons l ls)
  show ?case
  proof (cases "\<exists>v y. line_var l = Some v \<and> map_of new v = Some y")
    case True
    then obtain v y where v: "line_var l = Some v" "map_of new v = Some y" by blast
    let ?rest = "filter (\<lambda>(w, _). w \<noteq> v) new"
    from Cons.prems(2) v obtain l' out' where l': "config_line v y = Inr l'"
      and out': "copy_lines ?rest ls = Inr out'" and out: "out = l' # out'"
      by (auto simp: rbind_Inr_iff)
    from l' obtain x where y: "y = Some x" by (rule config_line_InrE)
    have "line_var l' = Some v"
      using good_settingsD [OF Cons.prems(1) v(2)] l' y setting_config_line [of v x l']
      by (auto simp: line_var_setting)
    with Cons.IH [OF good_settings_filter [OF Cons.prems(1)] out'] l' v(2) show ?thesis by (simp add: out)
  next
    case False
    then obtain out' where out': "copy_lines new ls = Inr out'" and out: "out = l # out'"
      using Cons.prems(2) by (auto simp: rbind_Inr_iff split: option.splits)
    with Cons.IH [OF Cons.prems(1) out'] False show ?thesis by (auto simp: out split: option.split)
  qed
qed

section \<open>Lines and text\<close>

lemma rstrip_nl_id: "NL \<notin> set l \<Longrightarrow> rstrip_nl l = l"
  by (cases l rule: rev_cases) (auto simp: rstrip_nl_def)

lemma rstrip_nl_line: "NL \<notin> set l \<Longrightarrow> rstrip_nl (l @ [NL]) = l"
  using rstrip_nl_id [of l] by (simp add: rstrip_nl_def)

lemma file_lines_shape: "l \<in> set (file_lines t) \<Longrightarrow> NL \<notin> set l \<or> (\<exists>l0. l = l0 @ [NL] \<and> NL \<notin> set l0)"
proof (induction t arbitrary: l rule: file_lines.induct)
  case 1
  then show ?case by simp
next
  case (2 x xs)
  show ?case
  proof (cases "x = NL \<or> file_lines xs = [] \<or> l \<in> set (tl (file_lines xs))")
    case True
    with 2 show ?thesis by (auto split: if_splits list.splits)
  next
    case False
    with 2(3) obtain l1 ls where "file_lines xs = l1 # ls" and l: "l = x # l1"
      by (cases "file_lines xs") auto
    with 2(2) False have "NL \<notin> set l1 \<or> (\<exists>l0. l1 = l0 @ [NL] \<and> NL \<notin> set l0)" by auto
    with l False show ?thesis by (auto intro: exI [of _ "x # _"])
  qed
qed

lemma text_lines_no_nl: "l \<in> set (text_lines t) \<Longrightarrow> NL \<notin> set l"
  by (auto simp: text_lines_def rstrip_nl_line rstrip_nl_id dest!: file_lines_shape)

lemma text_lines_written: "\<forall>l \<in> set ls. NL \<notin> set l \<Longrightarrow> text_lines (concat (map (\<lambda>l. l @ [NL]) ls)) = ls"
  by (induction ls) (simp_all add: text_lines_def file_lines_line rstrip_nl_line)

lemma config_char_no_nl: "list_all config_char w \<Longrightarrow> NL \<notin> set w"
  by (auto simp: list_all_iff config_char_def is_digit_def Let_def)

lemma config_line_no_nl:
  assumes "valid_name v" and "one_line y" and "config_line v y = Inr l"
  shows "NL \<notin> set l"
proof -
  obtain w where "v = ''CONFIG_'' @ w" and "list_all config_char w"
    using assms(1) by (auto simp: valid_name_def startswith_iff_prefix prefix_def)
  then have "NL \<notin> set v" by (auto dest: config_char_no_nl)
  with assms(2,3) show ?thesis
    by (auto simp: config_line_def shown_value_def one_line_def split: option.splits if_splits)
qed

lemma added_lines_no_nl:
  "good_settings new \<Longrightarrow> added_lines new = Inr out \<Longrightarrow> \<forall>l \<in> set out. NL \<notin> set l"
proof (induction new arbitrary: out)
  case (Cons p new)
  obtain v y where p: "p = (v, y)" by (cases p)
  from Cons.prems obtain l ls where l: "config_line v y = Inr l" and ls: "added_lines new = Inr ls"
    and out: "out = l # ls" by (auto simp: p rbind_Inr_iff)
  have g: "good_settings new" "valid_name v" "one_line y"
    using Cons.prems(1) by (simp_all add: p good_settings_Cons)
  from Cons.IH [OF g(1) ls] config_line_no_nl [OF g(2,3) l] show ?case by (simp add: out)
qed simp

lemma copy_lines_no_nl:
  assumes "good_settings new" and "\<forall>l \<in> set ls. NL \<notin> set l" and "copy_lines new ls = Inr out"
  shows "\<forall>l \<in> set out. NL \<notin> set l"
  using assms
proof (induction ls arbitrary: new out)
  case Nil
  then show ?case using added_lines_no_nl by simp
next
  case (Cons l ls)
  show ?case
  proof (cases "\<exists>v y. line_var l = Some v \<and> map_of new v = Some y")
    case True
    then obtain v y where v: "line_var l = Some v" "map_of new v = Some y" by blast
    with Cons.prems(3) obtain l' out' where l': "config_line v y = Inr l'"
      and out': "copy_lines (filter (\<lambda>(w, _). w \<noteq> v) new) ls = Inr out'" and out: "out = l' # out'"
      by (auto simp: rbind_Inr_iff)
    have "NL \<notin> set l'"
      by (rule config_line_no_nl [OF _ _ l']) (use good_settingsD [OF Cons.prems(1) v(2)] in simp_all)
    with Cons.IH [OF good_settings_filter [OF Cons.prems(1)] _ out'] Cons.prems(2) show ?thesis
      by (simp add: out)
  next
    case False
    then obtain out' where out': "copy_lines new ls = Inr out'" and out: "out = l # out'"
      using Cons.prems(3) by (auto simp: rbind_Inr_iff split: option.splits)
    with Cons.IH [OF Cons.prems(1) _ out'] Cons.prems(2) show ?thesis by (simp add: out)
  qed
qed

lemma copy_config_lines:
  assumes "good_settings new" and "copy_config text new = Inr text'"
  obtains out where "copy_lines new (text_lines text) = Inr out" and "text_lines text' = out"
    and "text' = concat (map (\<lambda>l. l @ [NL]) out)"
proof -
  from assms(2) obtain out where out: "copy_lines new (text_lines text) = Inr out"
    and text': "text' = concat (map (\<lambda>l. l @ [NL]) out)"
    by (auto simp: copy_config_def text_lines_def rbind_Inr_iff)
  have "\<forall>l \<in> set out. NL \<notin> set l"
    using copy_lines_no_nl [OF assms(1) _ out] text_lines_no_nl by blast
  then have "text_lines text' = out" unfolding text' by (rule text_lines_written)
  with out text' that show thesis by blast
qed

section \<open>The task\<close>

text \<open>
  C27: The task keeps the old configuration beside the new one and changes no other file. The new
  configuration says of every variable what the settings of the build say of it, and what the old
  configuration said of every other one.
\<close>

theorem postconfigure_merges:
  assumes "do_kernel_postconfigure True d fs reconfigure = (Inr (), fs')"
    and "get_kernel_config_vars d = Inr new" and "new \<noteq> []" and "good_settings new"
    and "get_var d ''B'' = Some b" and "config = path_join b ''.config''"
    and "fs config = Some text" and "once (text_lines text)"
  shows "\<exists>text'. fs' = reconfigure (fs(config @ ''.mvsave'' \<mapsto> text, config \<mapsto> text'))
    \<and> config_of (text_lines text') = config_of (text_lines text) ++ new_map new"
proof -
  from assms(1-3,5-7) obtain text' where text': "copy_config text new = Inr text'"
    and fs': "fs' = reconfigure (fs(config @ ''.mvsave'' \<mapsto> text, config \<mapsto> text'))"
    by (auto simp: do_kernel_postconfigure_def Let_def split: sum.splits)
  from copy_config_lines [OF assms(4) text'] obtain out
    where "copy_lines new (text_lines text) = Inr out" and "text_lines text' = out" by metis
  with config_of_copy [OF assms(4,8)] fs' show ?thesis by blast
qed

text \<open>
  C28: Putting the same settings into a configuration again changes nothing.
\<close>

theorem copy_config_idempotent:
  assumes "good_settings new" and "copy_config text new = Inr text'"
  shows "copy_config text' new = Inr text'"
proof -
  from copy_config_lines [OF assms] obtain out where out: "copy_lines new (text_lines text) = Inr out"
    and "text_lines text' = out" and text': "text' = concat (map (\<lambda>l. l @ [NL]) out)" by metis
  then have "copy_lines new (text_lines text') = Inr out" using copy_copied [OF assms(1) out] by simp
  then show ?thesis by (simp add: copy_config_def text_lines_def text')
qed

section \<open>A small build\<close>

definition small_store :: datastore where
  "small_store = \<lparr>var_names = [''B'', ''KERNEL_CONFIG_SMP'', ''KERNEL_CONFIG_NAME'', ''KERNEL_CONFIG_BUILD''],
     get_var = map_of [(''B'', ''b''), (''PRECONFIGURE_PREFIX'', ''KERNEL_''),
       (''PRECONFIGURE_IGNORE'', ''KERNEL_CONFIG_BUILD KERNEL_CONFIG_COMMAND''),
       (''KERNEL_CONFIG_SMP'', ''n''), (''KERNEL_CONFIG_NAME'', ''cgx'')]\<rparr>"

definition small_config :: string where
  "small_config = ''CONFIG_SMP=y'' @ [NL] @ ''# CONFIG_PM is not set'' @ [NL]"

definition small_files :: "string \<Rightarrow> string option" where
  "small_files f = (if f = ''b/.config'' then Some small_config else None)"

definition small_settings :: settings where
  "small_settings = [(''CONFIG_SMP'', Some ''n''), (''CONFIG_NAME'', Some ''cgx'')]"

definition small_merged :: string where
  "small_merged = ''# CONFIG_SMP is not set'' @ [NL] @ ''# CONFIG_PM is not set'' @ [NL]
     @ ''CONFIG_NAME='' @ [CHR 0x22] @ ''cgx'' @ [CHR 0x22] @ [NL]"

lemma small_copy: "copy_config small_config small_settings = Inr small_merged"
  by code_simp

lemma small_good: "good_settings small_settings"
  unfolding good_settings_def by code_simp

theorem copy_config_idempotent_witness:
  "copy_config small_merged small_settings = Inr small_merged"
  by (rule copy_config_idempotent [OF small_good small_copy])

theorem postconfigure_merges_witness:
  "\<exists>text' fs'. do_kernel_postconfigure True small_store small_files id = (Inr (), fs')
    \<and> fs' = small_files(''b/.config'' @ ''.mvsave'' \<mapsto> small_config, ''b/.config'' \<mapsto> text')
    \<and> config_of (text_lines text') = config_of (text_lines small_config) ++ new_map small_settings"
proof -
  have vars: "get_kernel_config_vars small_store = Inr small_settings" by code_simp
  have b: "get_var small_store ''B'' = Some ''b''" by code_simp
  have c: "''b/.config'' = path_join ''b'' ''.config''" by code_simp
  have old: "small_files ''b/.config'' = Some small_config" by (simp add: small_files_def)
  have once: "once (text_lines small_config)" by code_simp
  have new: "small_settings \<noteq> []" by (simp add: small_settings_def)
  let ?fs = "small_files(''b/.config'' @ ''.mvsave'' \<mapsto> small_config, ''b/.config'' \<mapsto> small_merged)"
  have "do_kernel_postconfigure True small_store small_files id = (Inr (), ?fs)"
    using vars b old new small_copy by (simp add: do_kernel_postconfigure_def c [symmetric])
  with postconfigure_merges [OF this vars new small_good b c old once] show ?thesis by auto
qed

end
