(* ===== verification/Spec2Isabelle.thy ===== *)
theory Spec2Isabelle
  imports MenuFacts AutoFacts LttStream LttLists Lsmod KernelConfig
begin

text \<open>
  A model of the Python programs of the layer \<open>meta-montavista-cgx\<close> and the theorems that make
  them correct.

  \<^bold>\<open>The programs.\<close>

  \<^item> \<open>recipes-mvista/mvinstaller/mvinstaller-0.1/installer.py\<close> is the installer of the distribution:
    a menu over the operations of the class \<open>Installer\<close> (partition, mount, unpack an image, install
    the boot loader, set the hostname, recover an installed system), and \<open>def_user_installer\<close>, an
    installation without questions but for two. It keeps a mount table, a flag and a list of
    devices, and runs the tools of the system.
  \<^item> \<open>recipes-kernel/lttng-2.0/ltt-kdump-0.2/sources/ltt.py\<close> is a command of gdb, \<open>dumpltt\<close>, which
    extracts an LTTng trace from the dump of a kernel: it finds the ring buffers through the lists of
    sessions and channels and writes the data of each CPU to a file, packet by packet.
  \<^item> \<open>recipes-bsp/gdb-kdump-helpers/gdb-kdump-helpers-01/gdbinit.py\<close> is a command of gdb, \<open>lsmod\<close>,
    which lists the modules of a dump.
  \<^item> \<open>classes/mvl.bbclass\<close> has the Python that puts the settings of a build into the configuration of
    the kernel.

  \<^bold>\<open>How code becomes definitions.\<close> An operation is a computation (\<open>Prelude\<close>): a function of an
  environment and a state whose value is the exception or the result, and the new state; \<open>None\<close> is a
  computation that never returns. The operators are those of Python: sequence, \<open>raise\<close>, \<open>try\<close> with
  \<open>except\<close> (\<open>catch\<close>) and \<open>finally\<close> (\<open>ensure\<close>), \<open>for\<close> (\<open>for_each\<close>, \<open>fold_comp\<close>) and \<open>while\<close>
  (\<open>iterate\<close>, a partial function, so that not ending is a value). Every \<open>raise\<close>, early return and
  failing conversion of the source is a branch. Integers are unbounded in Python and are \<open>int\<close> here;
  bytes of files are words of eight bits. Definitions have the names of the source; where a block of
  a long method has a definition of its own, the comment before it names the block.

  \<^bold>\<open>The installer.\<close> Everything outside the program is an environment (\<open>OsModel.env\<close>): what a program
  run by \<open>Popen\<close> or \<open>subprocess.call\<close> returns, what a file holds, what the user types, each a function
  of the history of events. The state (\<open>world\<close>) has the attributes of \<open>Installer\<close> and the trace of
  events so far, so order and absence of effects are properties of the trace.

  \<^item> \<open>PyText\<close>, \<open>PyNum\<close>: the methods of \<open>str\<close>, and \<open>int\<close>, \<open>float\<close> and their formats. \<open>PyRound\<close>: the
    true division and the remainder of doubles, with their rounding.
  \<^item> \<open>OsModel\<close>: events, environment, state, the operations of \<open>os\<close> and \<open>subprocess\<close>, and the
    contracts of effects as locales: \<open>effect_contract\<close> (a predicate kept by every event of a kind),
    \<open>harmless_contract\<close>, \<open>field_contract\<close>, and in \<open>Fstab\<close> \<open>mount_contract\<close> and \<open>full_contract\<close>. Each
    component proves inside them, once, that its operations keep the predicate; the interpretations
    (\<open>harmless_run\<close>, \<open>log_grows\<close>, \<open>table_kept\<close>, \<open>installed_kept\<close>, \<open>fields_kept\<close>) give the invariants.
  \<^item> \<open>Commands\<close>: \<open>CmdErr\<close>, \<open>_call_cmd\<close> and its variants. \<open>BaseDev\<close>: \<open>uuid_to_dev\<close>,
    \<open>find_base_devices\<close>, with the relation \<open>underlies\<close> it computes. \<open>Devices\<close>: \<open>read_devs\<close>,
    \<open>get_vgs\<close>, \<open>clean_vgs\<close>, \<open>get_base_devs\<close>, \<open>find_devices\<close>.
  \<^item> \<open>Fstab\<close>, \<open>FstabFacts\<close>: \<open>reread_fstab\<close>, \<open>mount_all\<close>, \<open>unmount_all\<close>, \<open>partition\<close>,
    \<open>find_boot_devices\<close>; what is accepted as a table, the order of mounting.
  \<^item> \<open>Serial\<close>, \<open>ImageInstall\<close>, \<open>ImageFacts\<close>, \<open>Grub\<close>, \<open>Hostname\<close>: the console, \<open>install\<close> and
    \<open>setup_from_existing_install\<close>, \<open>do_grub\<close> for BIOS and EFI, \<open>set_hostname\<close>.
  \<^item> \<open>Partitioning\<close>, \<open>PartitionFacts\<close>: \<open>get_partitions\<close>, \<open>create_partition\<close>, \<open>create_raid\<close>,
    \<open>create_vg\<close>, \<open>create_lv\<close> and the fstab they write through the shell, whose documented behaviour is
    the hypothesis \<open>echoes\<close>. \<open>AutoInstall\<close>, \<open>AutoFacts\<close>:
    \<open>def_user_installer\<close>, the sizes of the volumes, the wait for the RAID.
  \<^item> \<open>Menu\<close>, \<open>MenuFacts\<close>: \<open>default_installer\<close>. One round of a menu is \<open>menu_round\<close>; the program is the
    step relation \<open>menu_step\<close>, its states those of \<open>reached\<close>. The invariants of the whole program are
    proved by rule induction over it.

  \<^bold>\<open>The commands of gdb.\<close> The module \<open>gdb\<close> is not in the repository. \<open>Gdb\<close> has it as a parameter: what
  an expression evaluates to after some commands, and what a command makes of the files. Theorems
  that depend on gdb name what its manual says as hypotheses: \<open>appends_memory\<close> (\<open>append memory\<close>, of memory that can be read),
  \<open>documented\<close> (\<open>append value\<close>, \<open>show endian\<close>), and the contents of the dump as predicates of the
  expressions the code builds (\<open>pages_at\<close>, \<open>subbuffer_at\<close>, \<open>ring_at\<close>, \<open>module_list\<close>, \<open>mask_at\<close>,
  \<open>modules_from_virt\<close>). The witnesses instantiate them with small debuggers that evaluate.

  \<^item> \<open>LttUtil\<close>: the functions of \<open>ltt.py\<close> outside the command. \<open>LttDump\<close>: the methods of \<open>dumpltt\<close>;
    the attributes \<open>invoke\<close> sets are the record \<open>dump\<close>.
  \<^item> \<open>LttPages\<close>: \<open>align\<close>, and the bytes \<open>dump_subbuffer\<close> copies. \<open>LttHeader\<close>: numbers as bytes, and
    the packet \<open>handle_subbuffer\<close> appends, by the laws of the locale \<open>byte_file\<close> (a file that is
    extended and patched in place).
  \<^item> \<open>LttBuffer\<close>: the loop of \<open>handle_buffer\<close> is the dump of the list \<open>visits\<close>, when the positions are
    in the range where the index the code computes in doubles is exact (\<open>precise\<close>); it ends.
    \<open>LttStream\<close>: the file it leaves is a stream of packets, one for each visited subbuffer that holds
    data, which a reader takes apart by the sizes in the headers.
  \<^item> \<open>LttLists\<close>: the three searches along lists of the kernel are instances of the locale
    \<open>list_search\<close>, and that for a channel finds the \<open>first_fit\<close>; the list of online CPUs; what \<open>dumpltt\<close> does without the modules.
  \<^item> \<open>Lsmod\<close>: the command \<open>lsmod\<close> and what it prints.

  \<^bold>\<open>The kernel configuration.\<close> \<open>KernelConfig\<close>: the data store of BitBake is a record of its keys and
  the values \<open>getVar\<close> gives; \<open>do_kernel_postconfigure\<close> is a function of the files of the build. What a
  configuration says is \<open>config_of\<close>, the last line of each variable.

  \<^bold>\<open>What the theorems show.\<close> For the installer: the mount table is always empty or accepted, and only
  two choices of the main menu reformat a disk (others write to one, through \<open>tar\<close>, \<open>cp\<close> and
  \<open>grub-install\<close>); a device is traced to exactly the disks under it, and
  the recursion ends; the fstab is taken over as a whole or not at all, and what a new
  filesystem adds to it is read back;
  parents are mounted before and unmounted after their children; the search for space is first fit;
  the volumes fit; the prompts and waits end as they should; consoles, gettys, boot loader and
  hostname are written as specified; errors lead back to the menu. For the dump: sizes are aligned;
  the packet has the bytes of the memory and the right header; the walk over a ring is in order, at
  most once around, and ends; searches find the first match and change nothing; the list of CPUs is
  exact. For the kernel: the merged configuration says what the build says, and otherwise what the old
  one said; merging twice is merging once. Where the code does not do what a comment says,
  the theorem states what it does:
  \<open>get_partitions_end_is_start\<close>, \<open>new_partition_on_top\<close>, \<open>full_ring_looks_empty\<close>,
  \<open>get_serial_parms_fields\<close> (flow control is taken for the stop bits), \<open>outside_example\<close>,
  \<open>menu_spins_at_eof\<close>, \<open>bytes_pipes_stop_the_start\<close>, and beside them
  \<open>failed_recovery_stays_installed\<close>, \<open>rcs_moved_before_close\<close>,
  \<open>set_hostname_without_dhcp\<close>, \<open>no_memory_size_stops\<close>.

  \<^bold>\<open>Bounds and fuel.\<close> The recursion of \<open>find_base_devices\<close> has the number of calls the interpreter
  allows as fuel and raises \<open>RecursionError\<close> like the interpreter; \<open>find_base_devices_ends\<close> says when
  that cannot happen. No other definition has fuel: loops are structural, have a measure
  (\<open>wait_node\<close>), or are \<open>iterate\<close>.

  \<^bold>\<open>Simplifications.\<close> A \<open>str\<close> is a list of ASCII characters. In the installer a \<open>float\<close> is its exact
  value, which has the same integer part as the double for the sizes that occur (\<open>PyNum\<close> says why).
  The index of a position in a ring is computed with the rounding of doubles (\<open>ring_index\<close>), for
  numbers of 64 bits, which do not leave the range of the exponents; the other quotients of
  \<open>ltt.py\<close> are of sizes and offsets in a subbuffer, far below \<open>2 ^ 53\<close>, and exact
  (\<open>true_div_floor\<close>). The pipes of \<open>Popen\<close> carry text or bytes, as the
  environment says (\<open>text_pipes\<close>): the code is written for text. Where a block mixes tabs and spaces,
  a tab is eight columns. Interrupts by signals are not modelled.

  \<^bold>\<open>Not modelled.\<close> The registration of the two commands and the last lines of the scripts, which only
  call the library. The recipes, the other classes and the configuration of the layer are BitBake
  metadata with short fragments of Python over the data store of BitBake; shell scripts, patches and
  data files belong to other programs.
\<close>

end
